theory Spec2Isabelle
  imports Complex_Main "HOL-Library.Word"
begin

section \<open>Values and arrays of the host program\<close>

text \<open>
  The host code of \<^verbatim>\<open>src/src/fracture.ts\<close> works on two kinds of typed arrays:
  \<^verbatim>\<open>Int32Array\<close> (cell tags, new-face ids) and \<^verbatim>\<open>Float32Array\<close> (coordinates), and on
  plain JavaScript arrays of numbers built by \<^verbatim>\<open>push\<close>.

  An element of an \<^verbatim>\<open>Int32Array\<close> is a 32-bit word read as two's complement (\<open>sint\<close>).
  A JavaScript number that holds a coordinate is modelled as an exact real, with two more
  values: \<open>NaN\<close>, and \<open>Undefined\<close>, which is what a read past the end of an array
  gives. Rounding of IEEE arithmetic and the infinities are outside this model.
\<close>

type_synonym i32 = "32 word"

datatype jsval = Num real | NaN | Undefined

type_synonym vec3 = "jsval \<times> jsval \<times> jsval"

text \<open>\<^verbatim>\<open>a[i]\<close> on an array or typed array: \<^verbatim>\<open>undefined\<close> out of range.\<close>

definition js_get :: "jsval list \<Rightarrow> nat \<Rightarrow> jsval" where
  "js_get a i = (if i < length a then a ! i else Undefined)"

text \<open>\<^verbatim>\<open>new Int32Array(xs)\<close> of an array of integers: each number wraps to 32 bits.\<close>

definition Int32Array :: "int list \<Rightarrow> i32 list" where
  "Int32Array xs = map word_of_int xs"

text \<open>
  \<^verbatim>\<open>new Float32Array(xs)\<close>: \<^verbatim>\<open>undefined\<close> becomes \<open>NaN\<close>. A number is kept as
  it is: the rounding of a double to single precision is not modelled, and no property
  below depends on the stored value of a number that this conversion would round.
\<close>

fun toFloat :: "jsval \<Rightarrow> jsval" where
  "toFloat Undefined = NaN"
| "toFloat v = v"

definition Float32Array :: "jsval list \<Rightarrow> jsval list" where
  "Float32Array xs = map toFloat xs"

section \<open>Host Compactor: \<^verbatim>\<open>floatNcompact\<close>\<close>

record compacted =
  indices :: "int list"
  vals :: "jsval list"

text \<open>
  One turn of the loop \<^verbatim>\<open>for (let i = 0; i < index.length; i++)\<close>; \<open>i\<close> is below
  \<open>length index\<close> there, so \<open>index ! i\<close> is a read in range.
\<close>

definition floatNcompact_step ::
  "nat \<Rightarrow> i32 list \<Rightarrow> jsval list \<Rightarrow> nat \<Rightarrow> compacted \<Rightarrow> compacted" where
  "floatNcompact_step N index val i acc =
     (if sint (index ! i) \<noteq> -1
      then \<lparr>indices = indices acc @ [sint (index ! i)],
            vals = vals acc @ map (\<lambda>n. js_get val (i * N + n)) [0..<N]\<rparr>
      else acc)"

definition floatNcompact :: "nat \<Rightarrow> i32 list \<Rightarrow> jsval list \<Rightarrow> compacted" where
  "floatNcompact N index val =
     fold (floatNcompact_step N index val) [0..<length index] \<lparr>indices = [], vals = []\<rparr>"

text \<open>The positions of the tag array whose tag is not the sentinel, in order.\<close>

definition kept :: "i32 list \<Rightarrow> nat list" where
  "kept index = filter (\<lambda>i. sint (index ! i) \<noteq> -1) [0..<length index]"

text \<open>The \<open>N\<close> floats of record \<open>i\<close> of a value array.\<close>

definition record_at :: "nat \<Rightarrow> jsval list \<Rightarrow> nat \<Rightarrow> jsval list" where
  "record_at N val i = map (\<lambda>n. js_get val (i * N + n)) [0..<N]"

section \<open>Arithmetic of JavaScript numbers and the vector helpers\<close>

text \<open>
  An operand that is not a number (\<open>NaN\<close>, or \<^verbatim>\<open>undefined\<close>, which converts to
  \<open>NaN\<close>) makes the result \<open>NaN\<close>. A division by zero gives an infinity or \<open>NaN\<close>
  in JavaScript; the model has no infinities and gives \<open>NaN\<close>. On numbers the
  operations are exact, where JavaScript rounds the result to a double: which values are
  numbers and which are \<open>NaN\<close> is as in the code, the last digits of a rounded result
  are not. \<^verbatim>\<open>Math.min\<close> and \<^verbatim>\<open>Math.max\<close> do not round, so the bounds of a bucket
  are exact; the centroid formula of the Face Sealer is one of exact arithmetic; no
  inequality between rounded coordinates is stated.
\<close>

fun js_add :: "jsval \<Rightarrow> jsval \<Rightarrow> jsval" where
  "js_add (Num a) (Num b) = Num (a + b)"
| "js_add _ _ = NaN"

fun js_sub :: "jsval \<Rightarrow> jsval \<Rightarrow> jsval" where
  "js_sub (Num a) (Num b) = Num (a - b)"
| "js_sub _ _ = NaN"

fun js_mul :: "jsval \<Rightarrow> jsval \<Rightarrow> jsval" where
  "js_mul (Num a) (Num b) = Num (a * b)"
| "js_mul _ _ = NaN"

fun js_div :: "jsval \<Rightarrow> jsval \<Rightarrow> jsval" where
  "js_div (Num a) (Num b) = (if b = 0 then NaN else Num (a / b))"
| "js_div _ _ = NaN"

text \<open>\<^verbatim>\<open>Math.min\<close> and \<^verbatim>\<open>Math.max\<close> of two arguments.\<close>

fun Math_min :: "jsval \<Rightarrow> jsval \<Rightarrow> jsval" where
  "Math_min (Num a) (Num b) = Num (min a b)"
| "Math_min _ _ = NaN"

fun Math_max :: "jsval \<Rightarrow> jsval \<Rightarrow> jsval" where
  "Math_max (Num a) (Num b) = Num (max a b)"
| "Math_max _ _ = NaN"

text \<open>\<^verbatim>\<open>a <= b\<close> on numbers: false as soon as one side is not a number.\<close>

fun js_le :: "jsval \<Rightarrow> jsval \<Rightarrow> bool" where
  "js_le (Num a) (Num b) = (a \<le> b)"
| "js_le _ _ = False"

text \<open>
  Modelled from the spec: \<^verbatim>\<open>OM.add3\<close> of \<^verbatim>\<open>ourmath.js\<close>, which is not among the
  sources; the sum of two points, component by component.
\<close>

fun add3 :: "vec3 \<Rightarrow> vec3 \<Rightarrow> vec3" where
  "add3 (a0, a1, a2) (b0, b1, b2) = (js_add a0 b0, js_add a1 b1, js_add a2 b2)"

text \<open>
  Modelled from the spec: \<^verbatim>\<open>OM.sub3\<close> of \<^verbatim>\<open>ourmath.js\<close>, which is not among the
  sources; the difference of two points, component by component (point minus center,
  max minus min).
\<close>

fun sub3 :: "vec3 \<Rightarrow> vec3 \<Rightarrow> vec3" where
  "sub3 (a0, a1, a2) (b0, b1, b2) = (js_sub a0 b0, js_sub a1 b1, js_sub a2 b2)"

text \<open>
  Modelled from the spec: \<^verbatim>\<open>OM.mult3c\<close> of \<^verbatim>\<open>ourmath.js\<close>, which is not among the
  sources; a point scaled by a constant.
\<close>

fun mult3c :: "vec3 \<Rightarrow> jsval \<Rightarrow> vec3" where
  "mult3c (a0, a1, a2) c = (js_mul a0 c, js_mul a1 c, js_mul a2 c)"

text \<open>
  Modelled from the spec: \<^verbatim>\<open>OM.compwise\<close> of \<^verbatim>\<open>ourmath.js\<close>, which is not among the
  sources; a binary function applied component by component (the running minimum and
  maximum of the bounds).
\<close>

fun compwise :: "(jsval \<Rightarrow> jsval \<Rightarrow> jsval) \<Rightarrow> vec3 \<Rightarrow> vec3 \<Rightarrow> vec3" where
  "compwise f (a0, a1, a2) (b0, b1, b2) = (f a0 b0, f a1 b1, f a2 b2)"

text \<open>The spread \<^verbatim>\<open>...p\<close> of a point into an argument list.\<close>

fun spread :: "vec3 \<Rightarrow> jsval list" where
  "spread (a0, a1, a2) = [a0, a1, a2]"

section \<open>Sparse JavaScript arrays\<close>

text \<open>
  \<^verbatim>\<open>faces\<close> in \<^verbatim>\<open>makeFace\<close> and \<^verbatim>\<open>cellfaces\<close> in \<^verbatim>\<open>doFracture\<close> are arrays
  written at computed keys. A write \<^verbatim>\<open>a[k] = v\<close> with an integer \<open>k\<close> stores the
  property \<open>k\<close>; it moves \<^verbatim>\<open>a.length\<close> to \<open>k + 1\<close> only when \<open>k\<close> is an array index
  (\<open>0 \<le> k < 2\<^sup>3\<^sup>2 - 1\<close>) at or past the length. A negative key is an ordinary
  property: the loops over \<open>0 .. length - 1\<close> never see it.
\<close>

record 'a js_array =
  props :: "int \<Rightarrow> 'a option"
  alen :: nat

definition empty_array :: "'a js_array" where
  "empty_array = \<lparr>props = (\<lambda>k. None), alen = 0\<rparr>"

definition array_limit :: nat where
  "array_limit = 2 ^ 32 - 1"

definition is_array_index :: "int \<Rightarrow> bool" where
  "is_array_index k \<longleftrightarrow> 0 \<le> k \<and> k < int array_limit"

definition array_set :: "'a js_array \<Rightarrow> int \<Rightarrow> 'a \<Rightarrow> 'a js_array" where
  "array_set a k v =
     \<lparr>props = (props a)(k \<mapsto> v),
      alen = (if is_array_index k then max (alen a) (nat k + 1) else alen a)\<rparr>"

section \<open>Face Sealer: \<^verbatim>\<open>makeFace\<close>\<close>

type_synonym edge = "vec3 \<times> vec3"

text \<open>
  The first loop: fragment \<open>i\<close> goes to the group of its id, which is created empty when
  it is missing; \<^verbatim>\<open>f.push\<close> changes the group in place and leaves the length of
  \<^verbatim>\<open>faces\<close> alone.
\<close>

definition makeFace_collect ::
  "int list \<Rightarrow> jsval list \<Rightarrow> nat \<Rightarrow> edge list js_array \<Rightarrow> edge list js_array" where
  "makeFace_collect ids points i faces =
     (let idx = ids ! i;
          faces1 = (case props faces idx of None \<Rightarrow> array_set faces idx [] | Some f \<Rightarrow> faces);
          f = (case props faces idx of None \<Rightarrow> [] | Some f \<Rightarrow> f);
          p1 = (js_get points (i * 8 + 0), js_get points (i * 8 + 1), js_get points (i * 8 + 2));
          p2 = (js_get points (i * 8 + 4), js_get points (i * 8 + 5), js_get points (i * 8 + 6))
      in faces1\<lparr>props := (props faces1)(idx \<mapsto> f @ [(p1, p2)])\<rparr>)"

text \<open>The centroid of a group, summed in the order of the source.\<close>

definition centroid :: "edge list \<Rightarrow> vec3" where
  "centroid f =
     mult3c (fold (\<lambda>e centr. add3 centr (add3 (fst e) (snd e))) f (Num 0, Num 0, Num 0))
            (js_div (Num 0.5) (Num (real (length f))))"

text \<open>The second loop, for one key \<open>iface\<close> below the length of \<^verbatim>\<open>faces\<close>.\<close>

definition makeFace_emit :: "edge list js_array \<Rightarrow> nat \<Rightarrow> compacted \<Rightarrow> compacted" where
  "makeFace_emit faces iface out =
     (case props faces (int iface) of
        None \<Rightarrow> out
      | Some f \<Rightarrow>
          fold (\<lambda>e out. \<lparr>indices = indices out @ [int iface],
                         vals = vals out @ spread (centroid f) @ spread (fst e) @ spread (snd e)\<rparr>)
            f out)"

definition makeFace_faces :: "int list \<Rightarrow> jsval list \<Rightarrow> edge list js_array" where
  "makeFace_faces ids points = fold (makeFace_collect ids points) [0..<length ids] empty_array"

definition makeFace :: "int list \<Rightarrow> jsval list \<Rightarrow> compacted" where
  "makeFace ids points =
     (let faces = makeFace_faces ids points
      in fold (makeFace_emit faces) [0..<alen faces] \<lparr>indices = [], vals = []\<rparr>)"

section \<open>One compaction step: \<^verbatim>\<open>outputToInput\<close>\<close>

text \<open>The four arrays read back from the device, and the two arrays the host keeps.\<close>

record readback =
  arrtrioutcells :: "i32 list"
  arrtriout :: "jsval list"
  arrnewoutcells :: "i32 list"
  arrnewout :: "jsval list"

record host_arrays =
  arrtricells :: "i32 list"
  arrtris :: "jsval list"

definition outputToInput :: "readback \<Rightarrow> host_arrays" where
  "outputToInput rb =
     (let c = floatNcompact 12 (arrtrioutcells rb) (arrtriout rb);
          n = floatNcompact 8 (arrnewoutcells rb) (arrnewout rb);
          mf = makeFace (indices n) (vals n)
      in \<lparr>arrtricells = Int32Array (indices c @ indices mf),
            arrtris = Float32Array (vals c @ vals mf)\<rparr>)"

section \<open>Auxiliary notions for the Face Sealer\<close>

text \<open>The nine floats of one emitted triangle: centroid, first point, second point.\<close>

definition triangle_of :: "vec3 \<Rightarrow> edge \<Rightarrow> jsval list" where
  "triangle_of c = (\<lambda>e. spread c @ spread (fst e) @ spread (snd e))"


text \<open>The group stored at key \<open>iface\<close> of \<^verbatim>\<open>faces\<close>, empty when there is none.\<close>

definition group_of :: "edge list js_array \<Rightarrow> nat \<Rightarrow> edge list" where
  "group_of faces iface = (case props faces (int iface) of None \<Rightarrow> [] | Some f \<Rightarrow> f)"

section \<open>Per-Plane Replicator: \<^verbatim>\<open>doTransformCopyPerPlane\<close>\<close>

text \<open>
  The host side of the replicator: it sizes the tag buffer, uploads \<^verbatim>\<open>arrtris\<close> and
  returns the triangle count of its output. \<^verbatim>\<open>kFracturePattern.cellCount\<close> belongs to
  \<^verbatim>\<open>fracture_pattern.js\<close>, which is not among the sources: it is the parameter
  \<open>cellCount\<close>. The division is JavaScript's, on numbers.
\<close>

definition doTransformCopyPerPlane :: "nat \<Rightarrow> jsval list \<Rightarrow> real" where
  "doTransformCopyPerPlane cellCount arrtris_in =
     (let tricount = real (length arrtris_in) / 4
      in tricount * real cellCount)"

section \<open>Classifier dispatch: the buffers of \<^verbatim>\<open>dispatchFracture\<close>\<close>

text \<open>The sizes, in bytes, of the four output buffers created for \<open>tricount\<close> triangles.\<close>

record frac_buffers =
  buftrioutcells_size :: real
  buftriout_size :: real
  bufnewoutcells_size :: real
  bufnewout_size :: real

definition dispatchFracture :: "real \<Rightarrow> frac_buffers" where
  "dispatchFracture tricount =
     \<lparr>buftrioutcells_size = tricount * 2 * 4,
      buftriout_size = tricount * 2 * 12 * 4,
      bufnewoutcells_size = tricount * 4,
      bufnewout_size = tricount * 2 * 4 * 4\<rparr>"

text \<open>The sizes, in bytes, that \<^verbatim>\<open>outputToInput\<close> reads back from them.\<close>

definition readback_sizes :: "real \<Rightarrow> frac_buffers" where
  "readback_sizes oldtricount =
     \<lparr>buftrioutcells_size = 4 * oldtricount * 2,
      buftriout_size = 4 * oldtricount * 2 * 12,
      bufnewoutcells_size = 4 * oldtricount,
      bufnewout_size = 4 * oldtricount * 2 * 4\<rparr>"

text \<open>
  The compute shader \<^verbatim>\<open>fracture\<close> of \<^verbatim>\<open>kShaderCode\<close> only names its bindings and
  writes nothing, and the host writes nothing into the four output buffers either. A buffer
  made by \<^verbatim>\<open>createBuffer\<close> without data is filled with zero bytes, so that is what the
  host reads back after the dispatch on \<open>n\<close> triangles: the tag 0 and the float 0 in
  every slot.
\<close>

definition dispatch_readback :: "nat \<Rightarrow> readback" where
  "dispatch_readback n =
     \<lparr>arrtrioutcells = replicate (n * 2) 0,
      arrtriout = replicate (n * 2 * 12) (Num 0),
      arrnewoutcells = replicate n 0,
      arrnewout = replicate (n * 2 * 4) (Num 0)\<rparr>"

section \<open>The fracture loop of \<^verbatim>\<open>doFracture\<close>\<close>

text \<open>
  What the device leaves in the four output buffers is a parameter of the loop: \<open>device i
  tricount st\<close> is what the host reads back in iteration \<open>i\<close>, after the classifier pass
  (and, on the last iteration, the proximity pass) has run on \<open>tricount\<close> triangles of the
  host arrays \<open>st\<close>. The properties of the loop hold for every such device.
  \<open>n\<close> is \<^verbatim>\<open>cellBuffers.length\<close>.
\<close>

type_synonym device = "nat \<Rightarrow> real \<Rightarrow> host_arrays \<Rightarrow> readback"

function fracture_loop :: "device \<Rightarrow> nat \<Rightarrow> nat \<Rightarrow> real \<Rightarrow> host_arrays \<Rightarrow> host_arrays" where
  "fracture_loop device n i tricount st =
     (if i < n
      then (let st1 = outputToInput (device i tricount st)
            in fracture_loop device n (Suc i) (real (length (arrtricells st1))) st1)
      else st)"
  by pat_completeness auto
termination
  by (relation "measure (\<lambda>(device, n, i, tricount, st). n - i)") auto

declare fracture_loop.simps [simp del]

section \<open>Fragment Assembler: the end of \<^verbatim>\<open>doFracture\<close>\<close>

text \<open>
  \<^verbatim>\<open>CellFace\<close>. The fields \<^verbatim>\<open>min\<close>, \<^verbatim>\<open>max\<close> and \<^verbatim>\<open>size\<close> are \<open>min3\<close>,
  \<open>max3\<close> and \<open>size3\<close> here; \<^verbatim>\<open>position\<close> and \<^verbatim>\<open>size\<close> are optional.
\<close>

record cellface =
  points :: "vec3 list"
  faces :: "(nat \<times> nat \<times> nat) list"
  min3 :: vec3
  max3 :: vec3
  position :: "vec3 option"
  size3 :: "vec3 option"

definition new_cellface :: cellface where
  "new_cellface =
     \<lparr>points = [], faces = [],
      min3 = (Num 10000, Num 10000, Num 10000),
      max3 = (Num (- 10000), Num (- 10000), Num (- 10000)),
      position = None, size3 = None\<rparr>"

text \<open>The body of \<^verbatim>\<open>for (let v = 0; v < 3; v++)\<close> for triangle \<open>i\<close>.\<close>

definition collect_vertex :: "jsval list \<Rightarrow> nat \<Rightarrow> nat \<Rightarrow> cellface \<Rightarrow> cellface" where
  "collect_vertex tris i v c =
     (let off = i * 12 + v * 4;
          p = (js_get tris (off + 0), js_get tris (off + 1), js_get tris (off + 2))
      in c\<lparr>points := points c @ [p],
            min3 := compwise Math_min (min3 c) p,
            max3 := compwise Math_max (max3 c) p\<rparr>)"

text \<open>The body of the "collect" loop for triangle \<open>i\<close>.\<close>

definition collect_step ::
  "i32 list \<Rightarrow> jsval list \<Rightarrow> nat \<Rightarrow> cellface js_array \<Rightarrow> cellface js_array" where
  "collect_step tags tris i cellfaces =
     (let idx = sint (tags ! i) + 2;
          cellfaces1 = (case props cellfaces idx of
                          None \<Rightarrow> array_set cellfaces idx new_cellface
                        | Some c \<Rightarrow> cellfaces);
          c = (case props cellfaces idx of None \<Rightarrow> new_cellface | Some c \<Rightarrow> c);
          c1 = fold (collect_vertex tris i) [0..<3] c;
          ci = length (faces c1) * 3;
          c2 = c1\<lparr>faces := faces c1 @ [(ci, ci + 1, ci + 2)]\<rparr>
      in cellfaces1\<lparr>props := (props cellfaces1)(idx \<mapsto> c2)\<rparr>)"

definition collect :: "i32 list \<Rightarrow> jsval list \<Rightarrow> cellface js_array" where
  "collect tags tris = fold (collect_step tags tris) [0..<length tags] empty_array"

text \<open>The body of the "recenter" loop for one bucket, and the loop.\<close>

definition recenter_cell :: "cellface \<Rightarrow> cellface" where
  "recenter_cell c =
     (let pos = mult3c (add3 (min3 c) (max3 c)) (Num 0.5);
          c1 = c\<lparr>position := Some pos, size3 := Some (sub3 (max3 c) (min3 c))\<rparr>
      in c1\<lparr>points := map (\<lambda>p. sub3 p pos) (points c1)\<rparr>)"

definition recenter_step :: "nat \<Rightarrow> cellface js_array \<Rightarrow> cellface js_array" where
  "recenter_step i cellfaces =
     (case props cellfaces (int i) of
        None \<Rightarrow> cellfaces
      | Some c \<Rightarrow> cellfaces\<lparr>props := (props cellfaces)(int i \<mapsto> recenter_cell c)\<rparr>)"

definition recenter :: "cellface js_array \<Rightarrow> cellface js_array" where
  "recenter cellfaces = fold recenter_step [0..<alen cellfaces] cellfaces"

definition assemble :: "host_arrays \<Rightarrow> cellface js_array" where
  "assemble st = recenter (collect (arrtricells st) (arrtris st))"

text \<open>
  \<^verbatim>\<open>doFracture\<close>: the replicator, the loop, then the assembler on the arrays the loop
  leaves. The field \<^verbatim>\<open>arrtricells\<close> of the object holds what an earlier call left, or is
  unassigned (\<open>None\<close>) on a new object. Without a cell buffer (\<open>n = 0\<close>) the loop does not
  run and the "collect" loop reads \<^verbatim>\<open>this.arrtricells.length\<close>: a \<^verbatim>\<open>TypeError\<close> when the
  field is unassigned. With a cell buffer the first compaction step assigns the field
  before the host reads it; the first dispatch binds the tag buffer that the replicator
  created, not the host array, so a device takes nothing from the array it is handed in
  iteration 0.
\<close>

datatype js_error = TypeError

definition doFracture ::
  "device \<Rightarrow> nat \<Rightarrow> nat \<Rightarrow> i32 list option \<Rightarrow> jsval list \<Rightarrow> js_error + cellface js_array" where
  "doFracture device cellCount n old_arrtricells vertsAsFloat4 =
     (let tricount = doTransformCopyPerPlane cellCount vertsAsFloat4
      in if n = 0
         then (case old_arrtricells of
                 None \<Rightarrow> Inl TypeError
               | Some tags \<Rightarrow> Inr (assemble \<lparr>arrtricells = tags, arrtris = vertsAsFloat4\<rparr>))
         else Inr (assemble (fracture_loop device n 0 tricount
                     \<lparr>arrtricells = (case old_arrtricells of None \<Rightarrow> [] | Some tags \<Rightarrow> tags),
                      arrtris = vertsAsFloat4\<rparr>)))"

text \<open>
  The buckets as \<^verbatim>\<open>transform\<close> walks them: the keys \<open>0 .. length - 1\<close> of the array
  that \<^verbatim>\<open>doFracture\<close> returns; a missing key gives no fragment.
\<close>

definition buckets :: "cellface js_array \<Rightarrow> cellface option list" where
  "buckets cellfaces = map (\<lambda>i. props cellfaces (int i)) [0..<alen cellfaces]"

section \<open>The input of \<^verbatim>\<open>doFracture\<close>: vertices padded to four floats\<close>

text \<open>
  Modelled from the spec: \<^verbatim>\<open>memcpy\<close> of \<^verbatim>\<open>util.js\<close>, which is not among the
  sources, as \<^verbatim>\<open>transform\<close> uses it: vertex \<open>iVertex\<close> of the mesh (3 floats) is
  copied to the first three of its 4 floats in a zero-filled \<^verbatim>\<open>Float32Array\<close>. The
  positions of a mesh are whole vertices, so their number is a multiple of 3 and
  \<open>length origPositions div 3\<close> is the number of vertices.
\<close>

definition vertsAsFloat4_of :: "jsval list \<Rightarrow> jsval list" where
  "vertsAsFloat4_of origPositions =
     concat (map (\<lambda>iVertex. [js_get origPositions (iVertex * 3),
                               js_get origPositions (iVertex * 3 + 1),
                               js_get origPositions (iVertex * 3 + 2),
                               Num 0])
              [0..<length origPositions div 3])"

section \<open>The loop, iteration by iteration\<close>

text \<open>
  The triangle count and the host arrays after the first \<open>k\<close> iterations of the loop that
  starts with \<open>tricount\<close> and \<open>st\<close>.
\<close>

fun loop_state :: "device \<Rightarrow> real \<Rightarrow> host_arrays \<Rightarrow> nat \<Rightarrow> real \<times> host_arrays" where
  "loop_state device tricount st 0 = (tricount, st)"
| "loop_state device tricount st (Suc k) =
     (let (t, s) = loop_state device tricount st k;
          s1 = outputToInput (device k t s)
      in (real (length (arrtricells s1)), s1))"

text \<open>The readback of iteration \<open>k\<close> of that loop.\<close>

definition readback_of :: "device \<Rightarrow> real \<Rightarrow> host_arrays \<Rightarrow> nat \<Rightarrow> readback" where
  "readback_of device tricount st k =
     (let (t, s) = loop_state device tricount st k in device k t s)"

section \<open>The loop as the specification words it\<close>

text \<open>
  The specification's loop, for comparison with \<open>fracture_loop\<close>: each iteration compacts
  the surviving triangles alone and appends the compacted cut-edge fragments to an
  accumulator; the Face Sealer runs once, after the last iteration, on the accumulated
  fragments, and its triangles are appended to the survivors of the last iteration.
\<close>

definition compact_survivors :: "readback \<Rightarrow> host_arrays" where
  "compact_survivors rb =
     (let c = floatNcompact 12 (arrtrioutcells rb) (arrtriout rb)
      in \<lparr>arrtricells = Int32Array (indices c), arrtris = Float32Array (vals c)\<rparr>)"

function spec_fracture_loop ::
  "device \<Rightarrow> nat \<Rightarrow> nat \<Rightarrow> real \<Rightarrow> host_arrays \<Rightarrow> compacted \<Rightarrow> host_arrays" where
  "spec_fracture_loop device n i tricount st acc =
     (if i < n
      then (let rb = device i tricount st;
                st1 = compact_survivors rb;
                fr = floatNcompact 8 (arrnewoutcells rb) (arrnewout rb);
                acc1 = \<lparr>indices = indices acc @ indices fr, vals = vals acc @ vals fr\<rparr>
            in spec_fracture_loop device n (Suc i) (real (length (arrtricells st1))) st1 acc1)
      else (let mf = makeFace (indices acc) (vals acc)
            in \<lparr>arrtricells = arrtricells st @ Int32Array (indices mf),
                  arrtris = arrtris st @ Float32Array (vals mf)\<rparr>))"
  by pat_completeness auto
termination
  by (relation "measure (\<lambda>(device, n, i, tricount, st, acc). n - i)") auto

declare spec_fracture_loop.simps [simp del]

section \<open>Concrete inputs\<close>

text \<open>
  A readback after a dispatch on one triangle: two tag slots, of which one holds the
  surviving tag 7 and one the sentinel, 24 floats of triangle records, one cut-edge
  fragment of the new face 3 and its 8 floats.
\<close>

definition one_survivor_one_edge :: readback where
  "one_survivor_one_edge =
     \<lparr>arrtrioutcells = [7, - 1], arrtriout = replicate 24 (Num 1),
      arrnewoutcells = [3], arrnewout = replicate 8 (Num 2)\<rparr>"


text \<open>A mesh of one triangle: three vertices, nine floats.\<close>

definition one_triangle_mesh :: "jsval list" where
  "one_triangle_mesh = [Num 0, Num 0, Num 0, Num 1, Num 0, Num 0, Num 0, Num 1, Num 0]"

text \<open>
  A device that leaves the same four arrays in every iteration: one surviving triangle and
  one cut-edge fragment of the new face 3.
\<close>

definition steady_device :: device where
  "steady_device i tricount st = one_survivor_one_edge"

section \<open>Grouping by key in a sparse array\<close>

text \<open>
  Both grouping loops, of \<^verbatim>\<open>makeFace\<close> and of the "collect" stage, have one shape: item
  \<open>i\<close> has a key; the group at that key is created from \<open>init\<close> when it is missing and
  then updated with the item. \<open>group_step\<close> is that shape, \<open>array_length_of\<close> is the
  length of an array that was written at the given keys: one more than the largest array
  index among them, 0 when there is none.
\<close>

definition group_step ::
  "(nat \<Rightarrow> int) \<Rightarrow> 'a \<Rightarrow> (nat \<Rightarrow> 'a \<Rightarrow> 'a) \<Rightarrow> nat \<Rightarrow> 'a js_array \<Rightarrow> 'a js_array" where
  "group_step key init upd i a =
     (let idx = key i;
          a1 = (case props a idx of None \<Rightarrow> array_set a idx init | Some c \<Rightarrow> a);
          c = (case props a idx of None \<Rightarrow> init | Some c \<Rightarrow> c)
      in a1\<lparr>props := (props a1)(idx \<mapsto> upd i c)\<rparr>)"

definition array_length_of :: "int list \<Rightarrow> nat" where
  "array_length_of ks =
     (if filter is_array_index ks = [] then 0
      else nat (Max (set (filter is_array_index ks))) + 1)"

text \<open>The items of key \<open>k\<close> among the first \<open>n\<close>, in order.\<close>

definition items_of :: "(nat \<Rightarrow> int) \<Rightarrow> nat \<Rightarrow> int \<Rightarrow> nat list" where
  "items_of key n k = filter (\<lambda>i. key i = k) [0..<n]"

section \<open>The Face Sealer's output, group by group\<close>

text \<open>
  Fragment \<open>i\<close> of the input of \<^verbatim>\<open>makeFace\<close>: the two points read at \<open>i * 8\<close> and
  \<open>i * 8 + 4\<close>; and the fragments of the new face \<open>k\<close>, in the order of the input.
\<close>

definition edge_at :: "jsval list \<Rightarrow> nat \<Rightarrow> edge" where
  "edge_at pts i =
     ((js_get pts (i * 8 + 0), js_get pts (i * 8 + 1), js_get pts (i * 8 + 2)),
      (js_get pts (i * 8 + 4), js_get pts (i * 8 + 5), js_get pts (i * 8 + 6)))"

definition fragments_of :: "int list \<Rightarrow> jsval list \<Rightarrow> int \<Rightarrow> edge list" where
  "fragments_of ids pts k = map (edge_at pts) (filter (\<lambda>i. ids ! i = k) [0..<length ids])"

text \<open>A point and a fragment whose coordinates are all numbers.\<close>

fun num3 :: "real \<times> real \<times> real \<Rightarrow> vec3" where
  "num3 (x, y, z) = (Num x, Num y, Num z)"

fun num_edge :: "(real \<times> real \<times> real) \<times> (real \<times> real \<times> real) \<Rightarrow> edge" where
  "num_edge (p, q) = (num3 p, num3 q)"

text \<open>The three coordinates of a point of reals.\<close>

fun cx :: "real \<times> real \<times> real \<Rightarrow> real" where "cx (x, y, z) = x"
fun cy :: "real \<times> real \<times> real \<Rightarrow> real" where "cy (x, y, z) = y"
fun cz :: "real \<times> real \<times> real \<Rightarrow> real" where "cz (x, y, z) = z"

section \<open>The Fragment Assembler's buckets, bucket by bucket\<close>

text \<open>
  The point read at offset \<open>off\<close> of \<^verbatim>\<open>arrtris\<close>, the three points of triangle \<open>i\<close>
  (\<open>off = i * 12 + v * 4\<close>), the triangles whose tag \<open>t\<close> has \<open>t + 2 = b\<close>, and their
  points, in the order of the tag array.
\<close>

definition point_at :: "jsval list \<Rightarrow> nat \<Rightarrow> vec3" where
  "point_at tris off = (js_get tris (off + 0), js_get tris (off + 1), js_get tris (off + 2))"

definition tri_points :: "jsval list \<Rightarrow> nat \<Rightarrow> vec3 list" where
  "tri_points tris i = map (\<lambda>v. point_at tris (i * 12 + v * 4)) [0..<3]"

definition bucket_triangles :: "i32 list \<Rightarrow> int \<Rightarrow> nat list" where
  "bucket_triangles tags b = filter (\<lambda>i. sint (tags ! i) + 2 = b) [0..<length tags]"

definition bucket_points :: "i32 list \<Rightarrow> jsval list \<Rightarrow> int \<Rightarrow> vec3 list" where
  "bucket_points tags tris b = concat (map (tri_points tris) (bucket_triangles tags b))"

text \<open>The running bounds over a list of points, from the seeds of a new bucket.\<close>

definition seeded_min :: "vec3 list \<Rightarrow> vec3" where
  "seeded_min ps = fold (\<lambda>p m. compwise Math_min m p) ps (min3 new_cellface)"

definition seeded_max :: "vec3 list \<Rightarrow> vec3" where
  "seeded_max ps = fold (\<lambda>p m. compwise Math_max m p) ps (max3 new_cellface)"

text \<open>All that the loop body does with triangle \<open>i\<close> once its bucket \<open>c\<close> is found.\<close>

definition add_triangle :: "jsval list \<Rightarrow> nat \<Rightarrow> cellface \<Rightarrow> cellface" where
  "add_triangle tris i c =
     (let c1 = fold (collect_vertex tris i) [0..<3] c;
          ci = length (faces c1) * 3
      in c1\<lparr>faces := faces c1 @ [(ci, ci + 1, ci + 2)]\<rparr>)"

text \<open>The bucket of key \<open>b\<close> after the "collect" loop.\<close>

definition collected :: "i32 list \<Rightarrow> jsval list \<Rightarrow> int \<Rightarrow> cellface" where
  "collected tags tris b =
     \<lparr>points = bucket_points tags tris b,
      faces = map (\<lambda>j. (j * 3, j * 3 + 1, j * 3 + 2)) [0..<length (bucket_triangles tags b)],
      min3 = seeded_min (bucket_points tags tris b),
      max3 = seeded_max (bucket_points tags tris b),
      position = None, size3 = None\<rparr>"

section \<open>Bounds of a bucket\<close>

text \<open>
  \<^verbatim>\<open>a <= b\<close> in every component; the computed box is tight when its corners are the
  least and the greatest coordinates of the points \<open>rs\<close>; the coordinates lie within the
  seeds when all of them are between \<open>-10000\<close> and \<open>10000\<close>.
\<close>

fun vle :: "vec3 \<Rightarrow> vec3 \<Rightarrow> bool" where
  "vle (a0, a1, a2) (b0, b1, b2) \<longleftrightarrow> js_le a0 b0 \<and> js_le a1 b1 \<and> js_le a2 b2"

definition tight_box :: "cellface \<Rightarrow> (real \<times> real \<times> real) list \<Rightarrow> bool" where
  "tight_box c rs \<longleftrightarrow>
     min3 c = num3 (Min (cx ` set rs), Min (cy ` set rs), Min (cz ` set rs))
     \<and> max3 c = num3 (Max (cx ` set rs), Max (cy ` set rs), Max (cz ` set rs))"

definition within_seeds :: "(real \<times> real \<times> real) list \<Rightarrow> bool" where
  "within_seeds rs \<longleftrightarrow>
     list_all (\<lambda>r. - 10000 \<le> cx r \<and> cx r \<le> 10000 \<and> - 10000 \<le> cy r \<and> cy r \<le> 10000
                  \<and> - 10000 \<le> cz r \<and> cz r \<le> 10000) rs"


text \<open>Host arrays with one triangle of the void tag \<open>-2\<close>.\<close>

definition void_triangle :: host_arrays where
  "void_triangle =
     \<lparr>arrtricells = [- 2],
      arrtris = [Num 0, Num 0, Num 0, Num 0, Num 4, Num 0, Num 0, Num 0, Num 0, Num 2, Num 0, Num 0]\<rparr>"

text \<open>Host arrays with one triangle of tag 0 that reaches past the seeds on two axes.\<close>

definition wide_triangle :: host_arrays where
  "wide_triangle =
     \<lparr>arrtricells = [0],
      arrtris = [Num 0, Num 0, Num 0, Num 0, Num 20000, Num 0, Num 0, Num 0,
                 Num 0, Num 20000, Num 0, Num 0]\<rparr>"


text \<open>The three points of the triangle of \<open>void_triangle\<close> and of \<open>wide_triangle\<close>.\<close>

definition void_points :: "(real \<times> real \<times> real) list" where
  "void_points = [(0, 0, 0), (4, 0, 0), (0, 2, 0)]"

definition wide_points :: "(real \<times> real \<times> real) list" where
  "wide_points = [(0, 0, 0), (20000, 0, 0), (0, 20000, 0)]"

section \<open>Properties of the Host Compactor\<close>

lemma floatNcompact_fold:
  "k \<le> length index \<Longrightarrow>
   fold (floatNcompact_step N index val) [0..<k] acc =
     \<lparr>indices = indices acc @ map (\<lambda>i. sint (index ! i)) (filter (\<lambda>i. sint (index ! i) \<noteq> -1) [0..<k]),
      vals = vals acc @ concat (map (record_at N val) (filter (\<lambda>i. sint (index ! i) \<noteq> -1) [0..<k]))\<rparr>"
  by (induction k) (simp_all add: floatNcompact_step_def record_at_def)

lemma floatNcompact_indices:
  "indices (floatNcompact N index val) = map (\<lambda>i. sint (index ! i)) (kept index)"
  by (simp add: floatNcompact_def floatNcompact_fold kept_def)

lemma floatNcompact_vals:
  "vals (floatNcompact N index val) = concat (map (record_at N val) (kept index))"
  by (simp add: floatNcompact_def floatNcompact_fold kept_def)

lemma map_sint_kept:
  "map (\<lambda>i. sint (index ! i)) (kept index) = filter (\<lambda>t. t \<noteq> -1) (map sint index)"
proof -
  have "map (\<lambda>i. sint (index ! i)) [0..<length index]
      = map sint (map ((!) index) [0..<length index])"
    by (simp only: map_map o_def)
  also have "\<dots> = map sint index"
    by (simp only: map_nth)
  finally have "map sint index = map (\<lambda>i. sint (index ! i)) [0..<length index]"
    by (rule sym)
  then show ?thesis
    by (simp only: kept_def filter_map o_def)
qed

lemma length_record_at [simp]: "length (record_at N val i) = N"
  by (simp add: record_at_def)

lemma concat_records_nth:
  "k < length ks \<Longrightarrow> n < N \<Longrightarrow>
   concat (map (record_at N val) ks) ! (k * N + n) = js_get val (ks ! k * N + n)"
proof (induction ks arbitrary: k)
  case Nil
  then show ?case by simp
next
  case (Cons a ks)
  show ?case
  proof (cases k)
    case 0
    with Cons.prems show ?thesis by (simp add: nth_append record_at_def)
  next
    case (Suc j)
    with Cons.prems have "j < length ks" by simp
    from Cons.IH [OF this Cons.prems(2)] Suc Cons.prems(2) show ?thesis
      by (simp add: nth_append)
  qed
qed

lemma length_concat_records:
  "length (concat (map (record_at N val) ks)) = length ks * N"
  by (induction ks) simp_all

lemma kept_nth_less: "k < length (kept index) \<Longrightarrow> kept index ! k < length index"
proof -
  assume "k < length (kept index)"
  then have "kept index ! k \<in> set (kept index)" by (rule nth_mem)
  then show ?thesis by (simp add: kept_def)
qed

text \<open>
  Claim C1. For every stride \<open>N\<close>, tag array and value array, \<^verbatim>\<open>floatNcompact\<close>
  returns the tags that are not \<open>-1\<close>, in their order, and for the \<open>k\<close>-th kept tag
  the \<open>N\<close> values of its record, at the slots \<open>k * N .. k * N + N - 1\<close> of the
  compacted values (12 for a triangle, 8 for a cut-edge fragment in \<^verbatim>\<open>outputToInput\<close>).
  The values are the elements of the value array whenever it holds \<open>N\<close> floats for every
  tag; a read past its end is \<^verbatim>\<open>undefined\<close>.
\<close>

theorem floatNcompact_stable_filter:
  "indices (floatNcompact N index val) = filter (\<lambda>t. t \<noteq> -1) (map sint index)
   \<and> vals (floatNcompact N index val) = concat (map (record_at N val) (kept index))
   \<and> length (vals (floatNcompact N index val)) = length (indices (floatNcompact N index val)) * N
   \<and> (\<forall>k n. k < length (kept index) \<longrightarrow> n < N \<longrightarrow>
         vals (floatNcompact N index val) ! (k * N + n) = js_get val (kept index ! k * N + n))
   \<and> (length index * N \<le> length val \<longrightarrow>
        (\<forall>k n. k < length (kept index) \<longrightarrow> n < N \<longrightarrow>
           vals (floatNcompact N index val) ! (k * N + n) = val ! (kept index ! k * N + n)))"
proof (intro conjI allI impI)
  show "indices (floatNcompact N index val) = filter (\<lambda>t. t \<noteq> -1) (map sint index)"
    by (simp only: floatNcompact_indices map_sint_kept)
  show "vals (floatNcompact N index val) = concat (map (record_at N val) (kept index))"
    by (rule floatNcompact_vals)
  show "length (vals (floatNcompact N index val)) = length (indices (floatNcompact N index val)) * N"
    by (simp add: floatNcompact_vals floatNcompact_indices length_concat_records)
next
  fix k n assume "k < length (kept index)" "n < N"
  then show "vals (floatNcompact N index val) ! (k * N + n) = js_get val (kept index ! k * N + n)"
    by (simp add: floatNcompact_vals concat_records_nth)
next
  fix k n assume len: "length index * N \<le> length val" and k: "k < length (kept index)" and n: "n < N"
  from k have "kept index ! k < length index" by (rule kept_nth_less)
  then have "Suc (kept index ! k) * N \<le> length index * N"
    by (simp only: Suc_le_eq [symmetric] mult_le_mono1)
  with n len have "kept index ! k * N + n < length val" by simp
  with k n show "vals (floatNcompact N index val) ! (k * N + n) = val ! (kept index ! k * N + n)"
    by (simp add: floatNcompact_vals concat_records_nth js_get_def)
qed

theorem floatNcompact_stable_filter_witness:
  "indices (floatNcompact 2 [5, -1, 7] [Num 1, Num 2, Num 3, Num 4, Num 5, Num 6]) = [5, 7]
   \<and> vals (floatNcompact 2 [5, -1, 7] [Num 1, Num 2, Num 3, Num 4, Num 5, Num 6])
       = [Num 1, Num 2, Num 5, Num 6]
   \<and> vals (floatNcompact 2 [5, -1, 7] [Num 1, Num 2, Num 3, Num 4, Num 5, Num 6]) ! 3 = Num 6"
proof -
  let ?index = "[5, -1, 7] :: i32 list"
  let ?val = "[Num 1, Num 2, Num 3, Num 4, Num 5, Num 6]"
  note t = floatNcompact_stable_filter [of 2 ?index ?val]
  have k: "kept ?index = [0, 2]"
    by (simp add: kept_def upt_conv_Cons)
  have len: "length ?index * 2 \<le> length ?val" by simp
  have a: "indices (floatNcompact 2 ?index ?val) = [5, 7]"
    using t by simp
  have b: "vals (floatNcompact 2 ?index ?val) = [Num 1, Num 2, Num 5, Num 6]"
    using t by (simp add: k record_at_def js_get_def upt_conv_Cons)
  from t len have "\<forall>k n. k < length (kept ?index) \<longrightarrow> n < 2 \<longrightarrow>
      vals (floatNcompact 2 ?index ?val) ! (k * 2 + n) = ?val ! (kept ?index ! k * 2 + n)"
    by blast
  then have "1 < length (kept ?index) \<longrightarrow> (1::nat) < 2 \<longrightarrow>
      vals (floatNcompact 2 ?index ?val) ! (1 * 2 + 1) = ?val ! (kept ?index ! 1 * 2 + 1)"
    by blast
  then have c: "vals (floatNcompact 2 ?index ?val) ! 3 = Num 6"
    by (simp add: k)
  from a b c show ?thesis by blast
qed

section \<open>Properties of the Face Sealer's output and of a compaction step\<close>

lemma length_spread [simp]: "length (spread p) = 3"
  by (cases p) simp

lemma emit_group_fold:
  "fold (\<lambda>e out. \<lparr>indices = indices out @ [k], vals = vals out @ g e\<rparr>) f out =
     \<lparr>indices = indices out @ replicate (length f) k, vals = vals out @ concat (map g f)\<rparr>"
  by (induction f arbitrary: out) (simp_all add: replicate_app_Cons_same)

lemma makeFace_emit_eq:
  "makeFace_emit F iface out =
     (case props F (int iface) of
        None \<Rightarrow> out
      | Some f \<Rightarrow> \<lparr>indices = indices out @ replicate (length f) (int iface),
                    vals = vals out @ concat (map (triangle_of (centroid f)) f)\<rparr>)"
  by (simp add: makeFace_emit_def emit_group_fold triangle_of_def split: option.split)

lemma makeFace_emit_group:
  "makeFace_emit F iface out =
     \<lparr>indices = indices out @ replicate (length (group_of F iface)) (int iface),
      vals = vals out @ concat (map (triangle_of (centroid (group_of F iface))) (group_of F iface))\<rparr>"
  by (simp add: makeFace_emit_eq group_of_def split: option.split)

lemma makeFace_emit_fold:
  "fold (makeFace_emit F) [0..<n] out =
     \<lparr>indices = indices out @ concat (map (\<lambda>i. replicate (length (group_of F i)) (int i)) [0..<n]),
      vals = vals out @ concat (map (\<lambda>i. concat (map (triangle_of (centroid (group_of F i))) (group_of F i))) [0..<n])\<rparr>"
  by (induction n) (simp_all add: makeFace_emit_group)

lemma makeFace_eq:
  "makeFace ids pts =
     \<lparr>indices = concat (map (\<lambda>i. replicate (length (group_of (makeFace_faces ids pts) i)) (int i))
                   [0..<alen (makeFace_faces ids pts)]),
      vals = concat (map (\<lambda>i. concat (map (triangle_of (centroid (group_of (makeFace_faces ids pts) i)))
                   (group_of (makeFace_faces ids pts) i))) [0..<alen (makeFace_faces ids pts)])\<rparr>"
  by (simp add: makeFace_def Let_def makeFace_emit_fold)

lemma length_triangle_of [simp]: "length (triangle_of c e) = 9"
  by (simp add: triangle_of_def)

lemma length_concat_triangles: "length (concat (map (triangle_of c) f)) = 9 * length f"
  by (induction f) simp_all

lemma makeFace_lengths:
  "length (vals (makeFace ids pts)) = 9 * length (indices (makeFace ids pts))"
proof -
  have "length (concat (map (\<lambda>i. concat (map (triangle_of (centroid (group_of F i))) (group_of F i))) xs))
      = 9 * length (concat (map (\<lambda>i. replicate (length (group_of F i)) (int i)) xs))" for F xs
    by (induction xs) (simp_all add: length_concat_triangles)
  then show ?thesis by (simp add: makeFace_eq)
qed

lemma array_set_alen: "alen a \<le> array_limit \<Longrightarrow> alen (array_set a k v) \<le> array_limit"
  by (auto simp: array_set_def is_array_index_def)

lemma makeFace_collect_alen:
  "alen a \<le> array_limit \<Longrightarrow> alen (makeFace_collect ids pts i a) \<le> array_limit"
  by (simp add: makeFace_collect_def Let_def array_set_alen split: option.split)

lemma makeFace_faces_alen: "alen (makeFace_faces ids pts) \<le> array_limit"
proof -
  have "alen (fold (makeFace_collect ids pts) [0..<n] empty_array) \<le> array_limit" for n
    by (induction n) (simp_all add: empty_array_def makeFace_collect_alen)
  then show ?thesis by (simp add: makeFace_faces_def)
qed

lemma makeFace_indices_range:
  "e \<in> set (indices (makeFace ids pts)) \<Longrightarrow> 0 \<le> e \<and> e < array_limit"
proof -
  assume "e \<in> set (indices (makeFace ids pts))"
  then obtain i where "i < alen (makeFace_faces ids pts)" "e = int i"
    by (auto simp: makeFace_eq)
  with makeFace_faces_alen [of ids pts] show ?thesis by auto
qed

lemma word_of_int_not_minus1:
  "0 \<le> e \<Longrightarrow> e < int array_limit \<Longrightarrow> (word_of_int e :: i32) \<noteq> -1"
proof
  assume e: "0 \<le> e" "e < int array_limit" and w: "(word_of_int e :: i32) = -1"
  have "(word_of_int (e + 1) :: i32) = word_of_int e + 1" by simp
  with w have "(word_of_int (e + 1) :: i32) = 0" by simp
  from this [unfolded word_of_int_eq_0_iff] have "(2 :: int) ^ 32 dvd e + 1" by simp
  moreover from e have "0 < e + 1" by simp
  ultimately have "(2 :: int) ^ 32 \<le> e + 1" by (rule zdvd_imp_le)
  with e show False by (simp add: array_limit_def)
qed

lemma word_of_int_sint_not_minus1:
  "sint (w :: i32) \<noteq> -1 \<Longrightarrow> (word_of_int (sint w) :: i32) \<noteq> -1"
  by auto

text \<open>
  Claim C2. After a compaction step no element of the tag array \<^verbatim>\<open>arrtricells\<close> is
  \<open>-1\<close>: the surviving tags are those that were not \<open>-1\<close>, and a face id appended by
  the Face Sealer is a key below the length of a JavaScript array, so its conversion to 32
  bits cannot give \<open>-1\<close> either.
\<close>

theorem outputToInput_no_sentinel:
  "- 1 \<notin> set (arrtricells (outputToInput rb))
   \<and> - 1 \<notin> set (map sint (arrtricells (outputToInput rb)))"
proof -
  let ?c = "floatNcompact 12 (arrtrioutcells rb) (arrtriout rb)"
  let ?n = "floatNcompact 8 (arrnewoutcells rb) (arrnewout rb)"
  let ?mf = "makeFace (indices ?n) (vals ?n)"
  have tags: "arrtricells (outputToInput rb) = map word_of_int (indices ?c) @ map word_of_int (indices ?mf)"
    by (simp add: outputToInput_def Let_def Int32Array_def)
  have a: "(word_of_int t :: i32) \<noteq> -1" if "t \<in> set (indices ?c)" for t
  proof -
    from that obtain w where "t = sint (w :: i32)" "sint w \<noteq> -1"
      by (auto simp only: floatNcompact_indices map_sint_kept set_filter set_map)
    then show ?thesis by auto
  qed
  have b: "(word_of_int t :: i32) \<noteq> -1" if "t \<in> set (indices ?mf)" for t
    using makeFace_indices_range [OF that] by (simp add: word_of_int_not_minus1)
  have "w \<noteq> -1" if "w \<in> set (arrtricells (outputToInput rb))" for w
  proof -
    from that obtain t where w: "w = word_of_int t"
      and t: "t \<in> set (indices ?c) \<or> t \<in> set (indices ?mf)"
      by (auto simp: tags)
    from t have "(word_of_int t :: i32) \<noteq> -1"
      using a [of t] b [of t] by (rule disjE)
    with w show ?thesis by simp
  qed
  then have "- 1 \<notin> set (arrtricells (outputToInput rb))" by blast
  moreover have "w = -1" if "sint w = -1" for w :: i32
  proof -
    from that have "(word_of_int (sint w) :: i32) = word_of_int (- 1)" by (simp only:)
    then show ?thesis by simp
  qed
  ultimately show ?thesis by auto
qed

section \<open>The record size of the arrays after a compaction step\<close>

lemma outputToInput_lengths:
  "length (arrtricells (outputToInput rb)) =
     length (kept (arrtrioutcells rb))
     + length (indices (makeFace (indices (floatNcompact 8 (arrnewoutcells rb) (arrnewout rb)))
                                 (vals (floatNcompact 8 (arrnewoutcells rb) (arrnewout rb)))))"
  "length (arrtris (outputToInput rb)) =
     12 * length (kept (arrtrioutcells rb))
     + 9 * length (indices (makeFace (indices (floatNcompact 8 (arrnewoutcells rb) (arrnewout rb)))
                                     (vals (floatNcompact 8 (arrnewoutcells rb) (arrnewout rb)))))"
  by (simp_all add: outputToInput_def Let_def Int32Array_def Float32Array_def
      floatNcompact_indices floatNcompact_vals length_concat_records makeFace_lengths)

lemma kept_survivor: "kept [7, - 1 :: i32] = [0]"
  by (simp add: kept_def upt_conv_Cons)

lemma kept_edge: "kept [3 :: i32] = [0]"
  by (simp add: kept_def upt_conv_Cons)

lemma makeFace_one_indices: "indices (makeFace [3] pts) = [3]"
  by (simp add: makeFace_eq makeFace_faces_def makeFace_collect_def empty_array_def array_set_def
      is_array_index_def array_limit_def group_of_def upt_conv_Cons Let_def)

text \<open>
  Claim C3 says that the tag array always has one tag per 12-float triangle record, also
  after the Face Sealer's output is appended. \<^verbatim>\<open>makeFace\<close> pushes 9 floats for each
  triangle (three points of three floats), not 12, while \<^verbatim>\<open>floatNcompact(12, ...)\<close>
  before it and the "collect" loop after it (\<^verbatim>\<open>off = i * 12 + v * 4\<close>) use records of
  12. With one surviving triangle and one sealed triangle the arrays hold 2 tags and 21
  floats.
\<close>

theorem sealed_triangles_break_record_size:
  "length (arrtricells (outputToInput one_survivor_one_edge)) = 2
   \<and> length (arrtris (outputToInput one_survivor_one_edge)) = 21
   \<and> length (arrtris (outputToInput one_survivor_one_edge))
       \<noteq> 12 * length (arrtricells (outputToInput one_survivor_one_edge))"
  by (simp add: outputToInput_lengths one_survivor_one_edge_def kept_survivor kept_edge
      floatNcompact_indices makeFace_one_indices)

section \<open>The triangle count of the Per-Plane Replicator\<close>

lemma length_vertsAsFloat4_of: "length (vertsAsFloat4_of orig) = 4 * (length orig div 3)"
proof -
  have "length (concat (map (\<lambda>i. [f i, g i, h i, z]) xs)) = 4 * length xs"
    for f g h :: "nat \<Rightarrow> jsval" and z and xs :: "nat list"
    by (induction xs) simp_all
  then show ?thesis by (simp add: vertsAsFloat4_of_def)
qed

lemma replicator_count_vertices:
  "doTransformCopyPerPlane cellCount (vertsAsFloat4_of orig)
     = real (cellCount * (length orig div 3))"
  by (simp add: doTransformCopyPerPlane_def Let_def length_vertsAsFloat4_of)

lemma replicator_count_triangles:
  "length orig = 9 * T \<Longrightarrow>
   doTransformCopyPerPlane cellCount (vertsAsFloat4_of orig) = real (3 * (cellCount * T))"
  by (simp add: replicator_count_vertices)

text \<open>
  Claim C7 says that the replicator's output triangle count is \<open>cellCount\<close> times the
  number of input triangles. \<^verbatim>\<open>doTransformCopyPerPlane\<close> takes \<^verbatim>\<open>tricount\<close> to be
  \<^verbatim>\<open>this.arrtris.length / 4\<close>, which is the number of 4-float vertices, where a
  triangle record is 12 floats: it returns \<open>cellCount\<close> times the vertex count, three
  times what the claim says. For a mesh of one triangle and two cells it returns 6.
\<close>

theorem replicator_count_is_threefold:
  "length one_triangle_mesh div 3 div 3 = 1
   \<and> doTransformCopyPerPlane 2 (vertsAsFloat4_of one_triangle_mesh) = 6
   \<and> doTransformCopyPerPlane 2 (vertsAsFloat4_of one_triangle_mesh)
       \<noteq> real (2 * (length one_triangle_mesh div 3 div 3))"
  by (simp add: replicator_count_vertices one_triangle_mesh_def)

section \<open>The buffers of a classifier dispatch\<close>

text \<open>
  Claim C9, as the code has it. For a dispatch on \<open>n\<close> triangles the tag buffer has room
  for \<open>2n\<close> tags of 4 bytes, the triangle buffer for \<open>2n\<close> records of 12 floats, the
  edge buffer for \<open>2n \<times> 4\<close> floats and the edge tag buffer for \<open>n\<close> tags. That is
  exactly the room of the worst case, two triangles and one cut-edge fragment (two points
  of 4 floats) for every input triangle, and \<^verbatim>\<open>outputToInput\<close> reads back exactly the
  allocated sizes. Nothing is said here about the contents of the slots.
\<close>

theorem dispatchFracture_capacity:
  "buftrioutcells_size (dispatchFracture (real n)) = 4 * real (2 * n)
   \<and> buftriout_size (dispatchFracture (real n)) = 4 * real (12 * (2 * n))
   \<and> bufnewout_size (dispatchFracture (real n)) = 4 * real (2 * n * 4)
   \<and> bufnewoutcells_size (dispatchFracture (real n)) = 4 * real n
   \<and> buftriout_size (dispatchFracture (real n)) = real n * (2 * (12 * 4))
   \<and> bufnewout_size (dispatchFracture (real n)) = real n * (1 * (2 * (4 * 4)))
   \<and> readback_sizes (real n) = dispatchFracture (real n)"
  by (simp add: dispatchFracture_def readback_sizes_def)

text \<open>
  The part of claim C9 on the sentinel fails: no slot of the output buffers is ever set to
  \<open>-1\<close>. After a dispatch on one triangle the two tag slots hold 0, and the compactor
  keeps both as triangles.
\<close>

theorem unused_slots_hold_zero:
  "arrtrioutcells (dispatch_readback 1) = [0, 0]
   \<and> - 1 \<notin> set (arrtrioutcells (dispatch_readback 1))
   \<and> indices (floatNcompact 12 (arrtrioutcells (dispatch_readback 1))
                 (arrtriout (dispatch_readback 1))) = [0, 0]"
  by (simp add: dispatch_readback_def floatNcompact_indices kept_def upt_conv_Cons numeral_2_eq_2)

section \<open>When the Face Sealer runs\<close>

lemma fracture_loop_from:
  "i \<le> n \<Longrightarrow> loop_state device tricount st i = (t, s) \<Longrightarrow>
   fracture_loop device n i t s = snd (loop_state device tricount st n)"
proof (induction "n - i" arbitrary: i t s)
  case 0
  then have "i = n" by simp
  with 0 show ?case by (simp add: fracture_loop.simps)
next
  case (Suc d)
  then have lt: "i < n" by simp
  let ?s1 = "outputToInput (device i t s)"
  have next_state: "loop_state device tricount st (Suc i) = (real (length (arrtricells ?s1)), ?s1)"
    using Suc.prems(2) by (simp add: Let_def)
  from Suc.hyps(2) lt have d: "d = n - Suc i" by simp
  from lt have le: "Suc i \<le> n" by simp
  have "fracture_loop device n (Suc i) (real (length (arrtricells ?s1))) ?s1
      = snd (loop_state device tricount st n)"
    by (rule Suc.hyps(1) [OF d le next_state])
  with lt show ?case
    by (subst fracture_loop.simps) (simp add: Let_def)
qed

lemma fracture_loop_loop_state:
  "fracture_loop device n 0 tricount st = snd (loop_state device tricount st n)"
  by (rule fracture_loop_from) simp_all

lemma loop_state_Suc:
  "snd (loop_state device tricount st (Suc k)) = outputToInput (readback_of device tricount st k)"
  by (simp add: readback_of_def Let_def split: prod.split)

text \<open>
  Claim C6, as the code has it. The Face Sealer runs in every iteration, inside the
  compaction step: the arrays after iteration \<open>k\<close> are the survivors of that iteration's
  readback followed by the triangles sealed from that iteration's cut-edge fragments alone.
  Nothing is accumulated: the arrays that the loop returns are those of its last iteration.
\<close>

theorem sealer_runs_every_iteration:
  assumes "k < n"
  shows "snd (loop_state device tricount st (Suc k)) =
           \<lparr>arrtricells = Int32Array
              (indices (floatNcompact 12 (arrtrioutcells (readback_of device tricount st k))
                                          (arrtriout (readback_of device tricount st k)))
               @ indices (makeFace
                   (indices (floatNcompact 8 (arrnewoutcells (readback_of device tricount st k))
                                             (arrnewout (readback_of device tricount st k))))
                   (vals (floatNcompact 8 (arrnewoutcells (readback_of device tricount st k))
                                          (arrnewout (readback_of device tricount st k)))))),
            arrtris = Float32Array
              (vals (floatNcompact 12 (arrtrioutcells (readback_of device tricount st k))
                                       (arrtriout (readback_of device tricount st k)))
               @ vals (makeFace
                   (indices (floatNcompact 8 (arrnewoutcells (readback_of device tricount st k))
                                             (arrnewout (readback_of device tricount st k))))
                   (vals (floatNcompact 8 (arrnewoutcells (readback_of device tricount st k))
                                          (arrnewout (readback_of device tricount st k))))))\<rparr>
         \<and> fracture_loop device n 0 tricount st =
             outputToInput (readback_of device tricount st (n - 1))"
proof (rule conjI)
  show "snd (loop_state device tricount st (Suc k)) = \<lparr>arrtricells = Int32Array
              (indices (floatNcompact 12 (arrtrioutcells (readback_of device tricount st k))
                                          (arrtriout (readback_of device tricount st k)))
               @ indices (makeFace
                   (indices (floatNcompact 8 (arrnewoutcells (readback_of device tricount st k))
                                             (arrnewout (readback_of device tricount st k))))
                   (vals (floatNcompact 8 (arrnewoutcells (readback_of device tricount st k))
                                          (arrnewout (readback_of device tricount st k)))))),
            arrtris = Float32Array
              (vals (floatNcompact 12 (arrtrioutcells (readback_of device tricount st k))
                                       (arrtriout (readback_of device tricount st k)))
               @ vals (makeFace
                   (indices (floatNcompact 8 (arrnewoutcells (readback_of device tricount st k))
                                             (arrnewout (readback_of device tricount st k))))
                   (vals (floatNcompact 8 (arrnewoutcells (readback_of device tricount st k))
                                          (arrnewout (readback_of device tricount st k))))))\<rparr>"
    by (simp only: loop_state_Suc outputToInput_def Let_def)
  from assms obtain m where n: "n = Suc m" by (cases n) simp_all
  show "fracture_loop device n 0 tricount st =
           outputToInput (readback_of device tricount st (n - 1))"
    by (simp only: fracture_loop_loop_state n loop_state_Suc diff_Suc_1)
qed

theorem sealer_runs_every_iteration_witness:
  "(0 :: nat) < 2
   \<and> fracture_loop steady_device 2 0 1 \<lparr>arrtricells = [], arrtris = []\<rparr>
       = outputToInput one_survivor_one_edge"
  using sealer_runs_every_iteration [of 0 2 steady_device 1 "\<lparr>arrtricells = [], arrtris = []\<rparr>"]
  by (simp add: readback_of_def steady_device_def split: prod.split)

lemma makeFace_two_indices: "indices (makeFace [3, 3] pts) = [3, 3]"
  by (simp add: makeFace_eq makeFace_faces_def makeFace_collect_def empty_array_def array_set_def
      is_array_index_def array_limit_def group_of_def upt_conv_Cons Let_def)

lemma spec_loop_steady:
  "length (arrtricells (spec_fracture_loop steady_device 2 0 1 \<lparr>arrtricells = [], arrtris = []\<rparr>
      \<lparr>indices = [], vals = []\<rparr>)) = 3"
  by (simp add: spec_fracture_loop.simps steady_device_def compact_survivors_def Let_def
      one_survivor_one_edge_def floatNcompact_indices kept_survivor kept_edge Int32Array_def
      makeFace_two_indices)

text \<open>
  Claim C6 as it is stated fails. With two iterations that each leave one surviving
  triangle and one cut-edge fragment of face 3, the loop of the specification ends with
  the survivor and two sealed triangles (one for each accumulated fragment); the code ends
  with the survivor and the one triangle sealed in the last iteration.
\<close>

theorem sealer_not_deferred:
  "fracture_loop steady_device 2 0 1 \<lparr>arrtricells = [], arrtris = []\<rparr>
     \<noteq> spec_fracture_loop steady_device 2 0 1 \<lparr>arrtricells = [], arrtris = []\<rparr>
          \<lparr>indices = [], vals = []\<rparr>"
proof
  assume eq: "fracture_loop steady_device 2 0 1 \<lparr>arrtricells = [], arrtris = []\<rparr>
     = spec_fracture_loop steady_device 2 0 1 \<lparr>arrtricells = [], arrtris = []\<rparr>
          \<lparr>indices = [], vals = []\<rparr>"
  have "fracture_loop steady_device 2 0 1 \<lparr>arrtricells = [], arrtris = []\<rparr>
      = outputToInput one_survivor_one_edge"
    by (simp add: fracture_loop_loop_state numeral_2_eq_2 steady_device_def Let_def)
  then have "length (arrtricells (fracture_loop steady_device 2 0 1 \<lparr>arrtricells = [], arrtris = []\<rparr>)) = 2"
    by (simp add: outputToInput_lengths one_survivor_one_edge_def kept_survivor kept_edge
      floatNcompact_indices makeFace_one_indices)
  with eq spec_loop_steady show False by simp
qed

section \<open>The grouping loops\<close>

lemma array_length_of_Nil [simp]: "array_length_of [] = 0"
  by (simp add: array_length_of_def)

lemma array_length_of_snoc:
  "array_length_of (ks @ [k]) =
     (if is_array_index k then max (array_length_of ks) (nat k + 1) else array_length_of ks)"
proof (cases "is_array_index k")
  case False
  then show ?thesis by (simp add: array_length_of_def)
next
  case True
  then have k0: "0 \<le> k" by (simp add: is_array_index_def)
  show ?thesis
  proof (cases "filter is_array_index ks = []")
    case True
    with \<open>is_array_index k\<close> show ?thesis by (simp add: array_length_of_def)
  next
    case False
    have "Max (insert k (set (filter is_array_index ks))) = max k (Max (set (filter is_array_index ks)))"
      by (rule Max_insert) (use False in \<open>auto simp: filter_empty_conv\<close>)
    moreover have "nat (max k m) + 1 = max (nat m + 1) (nat k + 1)" for m
      using k0 by (auto simp: max_def)
    ultimately show ?thesis
      using False \<open>is_array_index k\<close> by (auto simp add: array_length_of_def filter_empty_conv)
  qed
qed

lemma array_length_of_bound: "array_length_of ks \<le> array_limit"
proof (induction ks rule: rev_induct)
  case Nil
  then show ?case by simp
next
  case (snoc k ks)
  then show ?case
    by (auto simp: array_length_of_snoc is_array_index_def)
qed

lemma array_length_of_member:
  "k \<in> set ks \<Longrightarrow> is_array_index k \<Longrightarrow> nat k < array_length_of ks"
proof (induction ks rule: rev_induct)
  case Nil
  then show ?case by simp
next
  case (snoc x ks)
  then show ?case
    by (auto simp: array_length_of_snoc)
qed

lemma array_length_of_least:
  "n < array_length_of ks \<Longrightarrow> \<exists>k \<in> set ks. is_array_index k \<and> n \<le> nat k"
proof (induction ks rule: rev_induct)
  case Nil
  then show ?case by simp
next
  case (snoc x ks)
  then show ?case
    by (auto simp: array_length_of_snoc less_max_iff_disj less_Suc_eq_le split: if_splits)
qed

lemma items_of_Suc:
  "items_of key (Suc n) k = items_of key n k @ (if key n = k then [n] else [])"
  by (simp add: items_of_def)

lemma items_of_empty_iff: "items_of key n k = [] \<longleftrightarrow> k \<notin> key ` {0..<n}"
  by (auto simp: items_of_def filter_empty_conv)

lemma group_fold:
  "fold (group_step key init upd) [0..<n] empty_array =
     \<lparr>props = (\<lambda>k. if k \<in> key ` {0..<n} then Some (fold upd (items_of key n k) init) else None),
      alen = array_length_of (map key [0..<n])\<rparr>"
proof (induction n)
  case 0
  then show ?case by (simp add: empty_array_def)
next
  case (Suc n)
  let ?a = "\<lparr>props = (\<lambda>k. if k \<in> key ` {0..<n} then Some (fold upd (items_of key n k) init) else None),
      alen = array_length_of (map key [0..<n])\<rparr>"
  have step: "fold (group_step key init upd) [0..<Suc n] empty_array = group_step key init upd n ?a"
    using Suc.IH by simp
  have img: "key ` {0..<Suc n} = insert (key n) (key ` {0..<n})"
    by (simp add: atLeast0_lessThan_Suc)
  show ?case
  proof (cases "key n \<in> key ` {0..<n}")
    case True
    then have "key n \<in> set (map key [0..<n])" by simp
    then have "is_array_index (key n) \<Longrightarrow> nat (key n) < array_length_of (map key [0..<n])"
      by (rule array_length_of_member)
    then have len: "array_length_of (map key [0..<n] @ [key n]) = array_length_of (map key [0..<n])"
      by (auto simp: array_length_of_snoc)
    from True show ?thesis
      by (simp only: step) (auto simp: group_step_def Let_def img items_of_Suc len fun_eq_iff)
  next
    case False
    then have emp: "items_of key n (key n) = []" by (simp add: items_of_empty_iff)
    from False show ?thesis
      by (simp only: step)
         (auto simp: group_step_def Let_def img items_of_Suc emp array_set_def
            array_length_of_snoc fun_eq_iff)
  qed
qed

section \<open>The Face Sealer, group by group\<close>

lemma makeFace_collect_group_step:
  "makeFace_collect ids pts i a =
     group_step (\<lambda>i. ids ! i) [] (\<lambda>i f. f @ [edge_at pts i]) i a"
  by (simp add: makeFace_collect_def group_step_def edge_at_def Let_def)

lemma fold_push: "fold (\<lambda>i f. f @ [g i]) xs init = init @ map g xs"
  by (induction xs arbitrary: init) simp_all

lemma nth_image_upt: "(\<lambda>i. xs ! i) ` {0..<length xs} = set xs"
  by (auto simp: set_conv_nth)

lemma makeFace_faces_eq:
  "makeFace_faces ids pts =
     \<lparr>props = (\<lambda>k. if k \<in> set ids then Some (fragments_of ids pts k) else None),
      alen = array_length_of ids\<rparr>"
proof -
  have "makeFace_faces ids pts =
      fold (group_step (\<lambda>i. ids ! i) [] (\<lambda>i f. f @ [edge_at pts i])) [0..<length ids] empty_array"
    unfolding makeFace_faces_def
    by (rule arg_cong [where f = "\<lambda>f. fold f [0..<length ids] empty_array"])
       (simp add: fun_eq_iff makeFace_collect_group_step)
  then show ?thesis
    by (simp add: group_fold nth_image_upt map_nth fold_push items_of_def fragments_of_def
        cong: if_cong)
qed

lemma fragments_of_absent: "k \<notin> set ids \<Longrightarrow> fragments_of ids pts k = []"
  by (auto simp: fragments_of_def filter_empty_conv)

lemma group_of_makeFace_faces:
  "group_of (makeFace_faces ids pts) i = fragments_of ids pts (int i)"
  by (simp add: group_of_def makeFace_faces_eq fragments_of_absent)

lemma length_fragments_of: "length (fragments_of ids pts k) = count_list ids k"
proof -
  have "count_list ids k = length (filter ((=) k) (map ((!) ids) [0..<length ids]))"
    by (simp only: map_nth count_list_eq_length_filter)
  also have "\<dots> = length (filter (\<lambda>i. ids ! i = k) [0..<length ids])"
    by (simp only: filter_map length_map o_def eq_commute [of k])
  finally show ?thesis by (simp add: fragments_of_def)
qed

lemma count_list_concat_replicate:
  "count_list (concat (map (\<lambda>i. replicate (c i) (int i)) [0..<n])) k =
     (if 0 \<le> k \<and> nat k < n then c (nat k) else 0)"
proof (induction n)
  case 0
  then show ?case by simp
next
  case (Suc n)
  have "count_list (replicate m (int n)) k = (if k = int n then m else 0)" for m
    by (induction m) auto
  with Suc show ?case by (auto simp: nat_eq_iff)
qed

lemma centroid_sum:
  assumes "rs \<noteq> []"
  shows "centroid (map num_edge rs) =
     num3 ((\<Sum>e\<leftarrow>rs. cx (fst e) + cx (snd e)) * (0.5 / real (length rs)),
           (\<Sum>e\<leftarrow>rs. cy (fst e) + cy (snd e)) * (0.5 / real (length rs)),
           (\<Sum>e\<leftarrow>rs. cz (fst e) + cz (snd e)) * (0.5 / real (length rs)))"
proof -
  have sum: "fold (\<lambda>e centr. add3 centr (add3 (fst e) (snd e))) (map num_edge rs) (num3 (a, b, c))
      = num3 (a + (\<Sum>e\<leftarrow>rs. cx (fst e) + cx (snd e)),
              b + (\<Sum>e\<leftarrow>rs. cy (fst e) + cy (snd e)),
              c + (\<Sum>e\<leftarrow>rs. cz (fst e) + cz (snd e)))" for a b c
  proof (induction rs arbitrary: a b c)
    case Nil
    then show ?case by simp
  next
    case (Cons r rs)
    obtain p q where r: "r = (p, q)" by (cases r)
    obtain px py pz where p: "p = (px, py, pz)" by (cases p)
    obtain qx qy qz where q: "q = (qx, qy, qz)" by (cases q)
    have "add3 (num3 (a, b, c)) (add3 (fst (num_edge r)) (snd (num_edge r)))
        = num3 (a + (px + qx), b + (py + qy), c + (pz + qz))"
      by (simp add: r p q)
    then show ?case
      using Cons.IH [of "a + (px + qx)" "b + (py + qy)" "c + (pz + qz)"]
      by (simp add: r p q add.assoc)
  qed
  from assms have "real (length rs) \<noteq> 0" by simp
  then show ?thesis
    using sum [of 0 0 0] by (simp add: centroid_def)
qed

text \<open>
  Claim C4, as the code has it. The output of \<^verbatim>\<open>makeFace\<close> runs through the keys
  \<open>0, 1, \<dots>\<close> below the length of \<^verbatim>\<open>faces\<close> (one more than the largest id that is an
  array index) and has, for each key, one triangle for each fragment of that id, in the
  order of the input: the centroid of the group, then the two points of the fragment. So
  an id that is an array index gets exactly as many triangles as it has fragments; an id
  without fragments, and an id that is not an array index (a negative one), gets none. The
  centroid of a group of \<open>n\<close> fragments whose coordinates are numbers is the sum of all
  their end points times \<open>0.5 / n\<close>.
\<close>

theorem makeFace_fan_per_group:
  "makeFace ids pts =
     \<lparr>indices = concat (map (\<lambda>i. replicate (length (fragments_of ids pts (int i))) (int i))
                      [0..<array_length_of ids]),
      vals = concat (map (\<lambda>i. concat (map (triangle_of (centroid (fragments_of ids pts (int i))))
                                          (fragments_of ids pts (int i))))
                      [0..<array_length_of ids])\<rparr>
   \<and> (\<forall>k. count_list (indices (makeFace ids pts)) k
            = (if is_array_index k then count_list ids k else 0))
   \<and> (\<forall>rs. rs \<noteq> [] \<longrightarrow>
         centroid (map num_edge rs) =
           num3 ((\<Sum>e\<leftarrow>rs. cx (fst e) + cx (snd e)) * (0.5 / real (length rs)),
                 (\<Sum>e\<leftarrow>rs. cy (fst e) + cy (snd e)) * (0.5 / real (length rs)),
                 (\<Sum>e\<leftarrow>rs. cz (fst e) + cz (snd e)) * (0.5 / real (length rs))))"
proof (intro conjI allI impI)
  show eq: "makeFace ids pts =
     \<lparr>indices = concat (map (\<lambda>i. replicate (length (fragments_of ids pts (int i))) (int i))
                      [0..<array_length_of ids]),
      vals = concat (map (\<lambda>i. concat (map (triangle_of (centroid (fragments_of ids pts (int i))))
                                          (fragments_of ids pts (int i))))
                      [0..<array_length_of ids])\<rparr>"
    by (simp add: makeFace_eq group_of_makeFace_faces) (simp add: makeFace_faces_eq)
  show "count_list (indices (makeFace ids pts)) k
            = (if is_array_index k then count_list ids k else 0)" for k
  proof (cases "0 \<le> k \<and> nat k < array_length_of ids")
    case True
    then obtain j where "j \<in> set ids" "is_array_index j" "nat k \<le> nat j"
      using array_length_of_least [of "nat k" ids] by blast
    with True have "is_array_index k" unfolding is_array_index_def by linarith
    with True show ?thesis
      by (simp add: eq count_list_concat_replicate length_fragments_of)
  next
    case False
    have "count_list ids k = 0" if "is_array_index k"
    proof (rule ccontr)
      assume "count_list ids k \<noteq> 0"
      then have "k \<in> set ids" by (metis count_notin)
      from array_length_of_member [OF this that] that False show False
        by (simp add: is_array_index_def)
    qed
    with False show ?thesis
      by (auto simp: eq count_list_concat_replicate)
  qed
  show "centroid (map num_edge rs) =
           num3 ((\<Sum>e\<leftarrow>rs. cx (fst e) + cx (snd e)) * (0.5 / real (length rs)),
                 (\<Sum>e\<leftarrow>rs. cy (fst e) + cy (snd e)) * (0.5 / real (length rs)),
                 (\<Sum>e\<leftarrow>rs. cz (fst e) + cz (snd e)) * (0.5 / real (length rs)))"
    if "rs \<noteq> []" for rs
    using that by (rule centroid_sum)
qed


theorem makeFace_fan_per_group_witness:
  "count_list (indices (makeFace [1, 1] (replicate 16 (Num 1)))) 1 = 2
   \<and> centroid (map num_edge [((0, 0, 0), (2, 0, 0)), ((2, 0, 0), (2, 2, 0))])
       = num3 (3 / 2, 1 / 2, 0)"
proof -
  let ?rs = "[((0, 0, 0), (2, 0, 0)), ((2, 0, 0), (2, 2, 0))]
               :: ((real \<times> real \<times> real) \<times> (real \<times> real \<times> real)) list"
  note t = makeFace_fan_per_group [of "[1, 1]" "replicate 16 (Num 1)"]
  have ne: "?rs \<noteq> []" by simp
  note count = t [THEN conjunct2, THEN conjunct1, THEN spec, of 1]
  note centr = t [THEN conjunct2, THEN conjunct2, THEN spec, of ?rs, THEN mp, OF ne]
  have a: "count_list (indices (makeFace [1, 1] (replicate 16 (Num 1)))) 1 = 2"
    by (simp only: count) (simp add: is_array_index_def array_limit_def)
  have b: "centroid (map num_edge ?rs) = num3 (3 / 2, 1 / 2, 0)"
    by (simp only: centr) simp
  from a b show ?thesis by (rule conjI)
qed

text \<open>
  Claim C4 as it is stated fails for an id that is not an array index: the one fragment of
  the id \<open>-2\<close> is stored under the property \<open>-2\<close> of \<^verbatim>\<open>faces\<close>, the length of
  \<^verbatim>\<open>faces\<close> stays 0, and no triangle is emitted for it.
\<close>

theorem negative_face_id_is_dropped:
  "count_list [- 2] (- 2 :: int) = 1
   \<and> makeFace [- 2] (replicate 8 (Num 1)) = \<lparr>indices = [], vals = []\<rparr>"
  by (simp add: makeFace_def makeFace_faces_eq array_length_of_def is_array_index_def)

section \<open>The "collect" and "recenter" loops\<close>

lemma collect_vertex_fold:
  "fold (collect_vertex tris i) [0..<3] c =
     c\<lparr>points := points c @ tri_points tris i,
       min3 := fold (\<lambda>p m. compwise Math_min m p) (tri_points tris i) (min3 c),
       max3 := fold (\<lambda>p m. compwise Math_max m p) (tri_points tris i) (max3 c)\<rparr>"
  by (simp add: collect_vertex_def tri_points_def point_at_def upt_conv_Cons numeral_3_eq_3 Let_def)

lemma add_triangle_eq:
  "add_triangle tris i c =
     \<lparr>points = points c @ tri_points tris i,
      faces = faces c @ [(length (faces c) * 3, length (faces c) * 3 + 1, length (faces c) * 3 + 2)],
      min3 = fold (\<lambda>p m. compwise Math_min m p) (tri_points tris i) (min3 c),
      max3 = fold (\<lambda>p m. compwise Math_max m p) (tri_points tris i) (max3 c),
      position = position c, size3 = size3 c\<rparr>"
  by (simp add: add_triangle_def collect_vertex_fold Let_def)

lemma add_triangle_fold:
  "fold (add_triangle tris) js c =
     \<lparr>points = points c @ concat (map (tri_points tris) js),
      faces = faces c @ map (\<lambda>j. ((length (faces c) + j) * 3, (length (faces c) + j) * 3 + 1,
                                      (length (faces c) + j) * 3 + 2)) [0..<length js],
      min3 = fold (\<lambda>p m. compwise Math_min m p) (concat (map (tri_points tris) js)) (min3 c),
      max3 = fold (\<lambda>p m. compwise Math_max m p) (concat (map (tri_points tris) js)) (max3 c),
      position = position c, size3 = size3 c\<rparr>"
proof (induction js arbitrary: c)
  case Nil
  then show ?case by simp
next
  case (Cons j js)
  have step: "fold (add_triangle tris) (j # js) c
      = fold (add_triangle tris) js (add_triangle tris j c)"
    by simp
  show ?case
    by (simp only: step Cons.IH) (simp add: add_triangle_eq map_upt_Suc del: upt_Suc)
qed

lemma collect_step_group_step:
  "collect_step tags tris i a =
     group_step (\<lambda>i. sint (tags ! i) + 2) new_cellface (add_triangle tris) i a"
  by (simp add: collect_step_def group_step_def add_triangle_def Let_def)

lemma bucket_keys_image:
  "(\<lambda>i. sint (tags ! i) + 2) ` {0..<length tags} = (\<lambda>t. sint t + 2) ` set tags"
proof -
  have "(\<lambda>i. sint (tags ! i) + 2) ` {0..<length tags}
      = (\<lambda>t. sint t + 2) ` (\<lambda>i. tags ! i) ` {0..<length tags}"
    by (simp only: image_image)
  then show ?thesis by (simp only: nth_image_upt)
qed

lemma bucket_keys_map:
  "map (\<lambda>i. sint (tags ! i) + 2) [0..<length tags] = map (\<lambda>t. sint t + 2) tags"
proof -
  have "map (\<lambda>i. sint (tags ! i) + 2) [0..<length tags]
      = map (\<lambda>t. sint t + 2) (map ((!) tags) [0..<length tags])"
    by (simp only: map_map o_def)
  then show ?thesis by (simp only: map_nth)
qed

lemma collect_eq:
  "collect tags tris =
     \<lparr>props = (\<lambda>b. if b \<in> (\<lambda>t. sint t + 2) ` set tags then Some (collected tags tris b) else None),
      alen = array_length_of (map (\<lambda>t. sint t + 2) tags)\<rparr>"
proof -
  have bucket: "fold (add_triangle tris) (bucket_triangles tags b) new_cellface = collected tags tris b"
    for b
    by (simp add: add_triangle_fold collected_def bucket_points_def seeded_min_def seeded_max_def)
       (simp add: new_cellface_def)
  have "collect tags tris =
      fold (group_step (\<lambda>i. sint (tags ! i) + 2) new_cellface (add_triangle tris))
        [0..<length tags] empty_array"
    unfolding collect_def
    by (rule arg_cong [where f = "\<lambda>f. fold f [0..<length tags] empty_array"])
       (simp add: fun_eq_iff collect_step_group_step)
  also have "\<dots> =
     \<lparr>props = (\<lambda>b. if b \<in> (\<lambda>t. sint t + 2) ` set tags
                    then Some (fold (add_triangle tris) (bucket_triangles tags b) new_cellface)
                    else None),
      alen = array_length_of (map (\<lambda>t. sint t + 2) tags)\<rparr>"
    by (simp only: group_fold bucket_keys_image bucket_keys_map items_of_def bucket_triangles_def)
  finally show ?thesis by (simp only: bucket)
qed

lemma recenter_fold:
  "fold recenter_step [0..<n] a =
     \<lparr>props = (\<lambda>k. if 0 \<le> k \<and> nat k < n then map_option recenter_cell (props a k) else props a k),
      alen = alen a\<rparr>"
proof (induction n)
  case 0
  then show ?case by simp
next
  case (Suc n)
  let ?b = "\<lparr>props = (\<lambda>k. if 0 \<le> k \<and> nat k < n then map_option recenter_cell (props a k) else props a k),
      alen = alen a\<rparr>"
  have "fold recenter_step [0..<Suc n] a = recenter_step n (fold recenter_step [0..<n] a)"
    by simp
  also have "\<dots> = recenter_step n ?b"
    by (simp only: Suc.IH)
  also have "\<dots> = \<lparr>props = (\<lambda>k. if 0 \<le> k \<and> nat k < Suc n
                                 then map_option recenter_cell (props a k) else props a k),
      alen = alen a\<rparr>"
    by (auto simp: recenter_step_def fun_eq_iff less_Suc_eq nat_eq_iff split: option.split)
  finally show ?case .
qed

lemma buckets_assemble:
  "buckets (assemble st) =
     map (\<lambda>b. if bucket_triangles (arrtricells st) (int b) = [] then None
               else Some (recenter_cell (collected (arrtricells st) (arrtris st) (int b))))
       [0..<array_length_of (map (\<lambda>t. sint t + 2) (arrtricells st))]"
proof -
  have "bucket_triangles tags b = [] \<longleftrightarrow> b \<notin> (\<lambda>t. sint t + 2) ` set tags" for tags b
    by (auto simp: bucket_triangles_def filter_empty_conv set_conv_nth)
  then show ?thesis
    by (simp add: buckets_def assemble_def recenter_def recenter_fold collect_eq)
qed

section \<open>The buckets of the Fragment Assembler\<close>

lemma sint_plus_two_array_index:
  "- 2 \<le> sint (t :: i32) \<Longrightarrow> is_array_index (sint t + 2)"
proof -
  assume t: "- 2 \<le> sint t"
  have "sint t < 2 ^ (LENGTH(32) - 1)" by (rule sint_lt)
  with t show ?thesis by (simp add: is_array_index_def array_limit_def)
qed

lemma bucket_triangles_member:
  "i < length tags \<Longrightarrow> i \<in> set (bucket_triangles tags (sint (tags ! i) + 2))"
  by (simp add: bucket_triangles_def)

lemma bucket_triangles_empty_iff:
  "bucket_triangles tags b = [] \<longleftrightarrow> (\<forall>i<length tags. sint (tags ! i) + 2 \<noteq> b)"
  by (auto simp: bucket_triangles_def filter_empty_conv)

lemma length_buckets_assemble:
  "length (buckets (assemble st)) = array_length_of (map (\<lambda>t. sint t + 2) (arrtricells st))"
  by (simp add: buckets_assemble)

lemma length_bucket_points:
  "length (bucket_points tags tris b) = 3 * length (bucket_triangles tags b)"
proof -
  have "length (concat (map (tri_points tris) js)) = 3 * length js" for js
    by (induction js) (simp_all add: tri_points_def)
  then show ?thesis by (simp add: bucket_points_def)
qed

text \<open>
  Claim C8. The "collect" loop puts the triangle of tag \<open>t\<close> into the bucket of key
  \<open>t + 2\<close>: the buckets that \<^verbatim>\<open>transform\<close> walks are the keys from 0 up to the largest
  \<open>t + 2\<close>; bucket \<open>b\<close> holds the points of exactly the triangles whose tag is \<open>b - 2\<close>,
  three for each, in the order of the tag array; a triangle of the void tag \<open>-2\<close> is in
  bucket 0; and a bucket that received no triangle is missing from the array, so no
  fragment is made for it.
\<close>

theorem buckets_by_tag_plus_two:
  "buckets (assemble st) =
     map (\<lambda>b. if bucket_triangles (arrtricells st) (int b) = [] then None
               else Some (recenter_cell (collected (arrtricells st) (arrtris st) (int b))))
       [0..<array_length_of (map (\<lambda>t. sint t + 2) (arrtricells st))]
   \<and> (\<forall>b. length (points (recenter_cell (collected (arrtricells st) (arrtris st) b)))
            = 3 * length (bucket_triangles (arrtricells st) b))
   \<and> (\<forall>i. i < length (arrtricells st) \<longrightarrow> - 2 \<le> sint (arrtricells st ! i) \<longrightarrow>
          nat (sint (arrtricells st ! i) + 2) < length (buckets (assemble st))
          \<and> i \<in> set (bucket_triangles (arrtricells st) (sint (arrtricells st ! i) + 2))
          \<and> buckets (assemble st) ! nat (sint (arrtricells st ! i) + 2)
              = Some (recenter_cell (collected (arrtricells st) (arrtris st)
                        (sint (arrtricells st ! i) + 2))))
   \<and> (\<forall>i. i < length (arrtricells st) \<longrightarrow> sint (arrtricells st ! i) = - 2 \<longrightarrow>
          buckets (assemble st) ! 0 = Some (recenter_cell (collected (arrtricells st) (arrtris st) 0))
          \<and> i \<in> set (bucket_triangles (arrtricells st) 0))
   \<and> (\<forall>b. b < length (buckets (assemble st)) \<longrightarrow>
          (buckets (assemble st) ! b = None
             \<longleftrightarrow> (\<forall>i<length (arrtricells st). sint (arrtricells st ! i) + 2 \<noteq> int b)))"
proof -
  let ?tags = "arrtricells st" and ?tris = "arrtris st"
  let ?n = "array_length_of (map (\<lambda>t. sint t + 2) ?tags)"
  have in_bucket: "nat (sint (?tags ! i) + 2) < length (buckets (assemble st))
          \<and> i \<in> set (bucket_triangles ?tags (sint (?tags ! i) + 2))
          \<and> buckets (assemble st) ! nat (sint (?tags ! i) + 2)
              = Some (recenter_cell (collected ?tags ?tris (sint (?tags ! i) + 2)))"
    if i: "i < length ?tags" and t: "- 2 \<le> sint (?tags ! i)" for i
  proof -
    from i have "sint (?tags ! i) + 2 \<in> set (map (\<lambda>t. sint t + 2) ?tags)" by simp
    moreover from t have "is_array_index (sint (?tags ! i) + 2)"
      by (rule sint_plus_two_array_index)
    ultimately have lt: "nat (sint (?tags ! i) + 2) < ?n"
      by (rule array_length_of_member)
    from i have mem: "i \<in> set (bucket_triangles ?tags (sint (?tags ! i) + 2))"
      by (rule bucket_triangles_member)
    then have ne: "bucket_triangles ?tags (sint (?tags ! i) + 2) \<noteq> []" by auto
    from lt t ne have "buckets (assemble st) ! nat (sint (?tags ! i) + 2)
        = Some (recenter_cell (collected ?tags ?tris (sint (?tags ! i) + 2)))"
      by (simp add: buckets_assemble)
    with lt mem show ?thesis by (simp add: length_buckets_assemble)
  qed
  have void: "buckets (assemble st) ! 0 = Some (recenter_cell (collected ?tags ?tris 0))
          \<and> i \<in> set (bucket_triangles ?tags 0)"
    if i: "i < length ?tags" and t: "sint (?tags ! i) = - 2" for i
    using in_bucket [OF i] t by simp
  have missing: "buckets (assemble st) ! b = None
             \<longleftrightarrow> (\<forall>i<length ?tags. sint (?tags ! i) + 2 \<noteq> int b)"
    if "b < length (buckets (assemble st))" for b
    using that by (simp add: buckets_assemble bucket_triangles_empty_iff)
  have len: "length (points (recenter_cell (collected ?tags ?tris b)))
            = 3 * length (bucket_triangles ?tags b)" for b
    by (simp add: recenter_cell_def Let_def collected_def length_bucket_points)
  from in_bucket void missing len show ?thesis
    by (simp only: buckets_assemble [symmetric]) blast
qed


theorem buckets_by_tag_plus_two_witness:
  "(0 :: nat) < length (arrtricells void_triangle)
   \<and> sint (arrtricells void_triangle ! 0) = - 2
   \<and> buckets (assemble void_triangle) ! 0
       = Some (recenter_cell (collected (arrtricells void_triangle) (arrtris void_triangle) 0))
   \<and> 0 \<in> set (bucket_triangles (arrtricells void_triangle) 0)"
proof -
  note t = buckets_by_tag_plus_two [of void_triangle]
  have i: "(0 :: nat) < length (arrtricells void_triangle)"
    by (simp add: void_triangle_def)
  have v: "sint (arrtricells void_triangle ! 0) = - 2"
    by (simp add: void_triangle_def)
  note void = t [THEN conjunct2, THEN conjunct2, THEN conjunct2, THEN conjunct1,
      THEN spec, of 0, THEN mp, THEN mp, OF i v]
  from i v void show ?thesis by simp
qed

section \<open>Bounds and recentering\<close>

lemma Min_insert_min:
  "finite S \<Longrightarrow> Min (insert (min a x) S) = Min (insert a (insert x S))"
  for a x :: real
  by (cases "S = {}") (simp_all add: min.assoc)

lemma Max_insert_max:
  "finite S \<Longrightarrow> Max (insert (max a x) S) = Max (insert a (insert x S))"
  for a x :: real
  by (cases "S = {}") (simp_all add: max.assoc)

lemma fold_min_num3:
  "fold (\<lambda>p m. compwise Math_min m p) (map num3 rs) (num3 (a, b, c)) =
     num3 (Min (insert a (cx ` set rs)), Min (insert b (cy ` set rs)), Min (insert c (cz ` set rs)))"
proof (induction rs arbitrary: a b c)
  case Nil
  then show ?case by simp
next
  case (Cons r rs)
  obtain x y z where r: "r = (x, y, z)" by (cases r)
  have "compwise Math_min (num3 (a, b, c)) (num3 r) = num3 (min a x, min b y, min c z)"
    by (simp add: r)
  then show ?case
    using Cons.IH [of "min a x" "min b y" "min c z"]
    by (simp add: r Min_insert_min)
qed

lemma fold_max_num3:
  "fold (\<lambda>p m. compwise Math_max m p) (map num3 rs) (num3 (a, b, c)) =
     num3 (Max (insert a (cx ` set rs)), Max (insert b (cy ` set rs)), Max (insert c (cz ` set rs)))"
proof (induction rs arbitrary: a b c)
  case Nil
  then show ?case by simp
next
  case (Cons r rs)
  obtain x y z where r: "r = (x, y, z)" by (cases r)
  have "compwise Math_max (num3 (a, b, c)) (num3 r) = num3 (max a x, max b y, max c z)"
    by (simp add: r)
  then show ?case
    using Cons.IH [of "max a x" "max b y" "max c z"]
    by (simp add: r Max_insert_max)
qed

lemma seeded_min_num3:
  "seeded_min (map num3 rs) =
     num3 (Min (insert 10000 (cx ` set rs)), Min (insert 10000 (cy ` set rs)),
           Min (insert 10000 (cz ` set rs)))"
  using fold_min_num3 [of rs 10000 10000 10000]
  by (simp add: seeded_min_def new_cellface_def)

lemma seeded_max_num3:
  "seeded_max (map num3 rs) =
     num3 (Max (insert (- 10000) (cx ` set rs)), Max (insert (- 10000) (cy ` set rs)),
           Max (insert (- 10000) (cz ` set rs)))"
  using fold_max_num3 [of rs "- 10000" "- 10000" "- 10000"]
  by (simp add: seeded_max_def new_cellface_def)

lemma box_contains:
  assumes "r \<in> set rs"
  shows "vle (seeded_min (map num3 rs)) (num3 r) \<and> vle (num3 r) (seeded_max (map num3 rs))"
proof -
  obtain x y z where r: "r = (x, y, z)" by (cases r)
  from assms have "cx r \<in> cx ` set rs" "cy r \<in> cy ` set rs" "cz r \<in> cz ` set rs"
    by simp_all
  then have "x \<in> cx ` set rs" "y \<in> cy ` set rs" "z \<in> cz ` set rs"
    by (simp_all add: r)
  then have "Min (insert 10000 (cx ` set rs)) \<le> x" "Min (insert 10000 (cy ` set rs)) \<le> y"
    "Min (insert 10000 (cz ` set rs)) \<le> z"
    "x \<le> Max (insert (- 10000) (cx ` set rs))" "y \<le> Max (insert (- 10000) (cy ` set rs))"
    "z \<le> Max (insert (- 10000) (cz ` set rs))"
    by simp_all
  then show ?thesis
    by (simp add: seeded_min_num3 seeded_max_num3 r)
qed

lemma Min_seed_iff:
  fixes a :: real
  assumes "finite S" "S \<noteq> {}"
  shows "Min (insert a S) = Min S \<longleftrightarrow> Min S \<le> a"
proof -
  have "min a m = m \<longleftrightarrow> m \<le> a" for m :: real
    by (auto simp: min_def)
  then show ?thesis
    by (simp only: Min_insert [OF assms])
qed

lemma Max_seed_iff:
  fixes a :: real
  assumes "finite S" "S \<noteq> {}"
  shows "Max (insert a S) = Max S \<longleftrightarrow> a \<le> Max S"
proof -
  have "max a m = m \<longleftrightarrow> a \<le> m" for m :: real
    by (auto simp: max_def)
  then show ?thesis
    by (simp only: Max_insert [OF assms])
qed

lemma collect_bucket:
  "props (collect tags tris) b = Some c \<Longrightarrow>
   c = collected tags tris b \<and> bucket_triangles tags b \<noteq> []"
  by (auto simp: collect_eq bucket_triangles_def filter_empty_conv set_conv_nth split: if_splits)

lemma num3_eq_iff:
  "num3 (a, b, c) = num3 (a', b', c') \<longleftrightarrow> a = a' \<and> b = b' \<and> c = c'"
  by simp

lemma tight_box_iff:
  assumes "rs \<noteq> []"
  shows "tight_box \<lparr>points = ps, faces = fs, min3 = seeded_min (map num3 rs),
                    max3 = seeded_max (map num3 rs), position = po, size3 = sz\<rparr> rs
     \<longleftrightarrow> Min (cx ` set rs) \<le> 10000 \<and> Min (cy ` set rs) \<le> 10000 \<and> Min (cz ` set rs) \<le> 10000
         \<and> - 10000 \<le> Max (cx ` set rs) \<and> - 10000 \<le> Max (cy ` set rs)
         \<and> - 10000 \<le> Max (cz ` set rs)"
proof -
  from assms have ne: "cx ` set rs \<noteq> {}" "cy ` set rs \<noteq> {}" "cz ` set rs \<noteq> {}"
    by simp_all
  have fin: "finite (cx ` set rs)" "finite (cy ` set rs)" "finite (cz ` set rs)"
    by simp_all
  show ?thesis
    unfolding tight_box_def seeded_min_num3 seeded_max_num3
    by (simp only: cellface.simps num3_eq_iff
          Min_seed_iff [OF fin(1) ne(1)] Min_seed_iff [OF fin(2) ne(2)] Min_seed_iff [OF fin(3) ne(3)]
          Max_seed_iff [OF fin(1) ne(1)] Max_seed_iff [OF fin(2) ne(2)] Max_seed_iff [OF fin(3) ne(3)])
       blast
qed

lemma within_seeds_bounds:
  assumes "rs \<noteq> []" "within_seeds rs"
  shows "Min (cx ` set rs) \<le> 10000 \<and> Min (cy ` set rs) \<le> 10000 \<and> Min (cz ` set rs) \<le> 10000
         \<and> - 10000 \<le> Max (cx ` set rs) \<and> - 10000 \<le> Max (cy ` set rs)
         \<and> - 10000 \<le> Max (cz ` set rs)"
proof -
  from assms(1) obtain r where r: "r \<in> set rs" by (cases rs) auto
  with assms(2) have b: "- 10000 \<le> cx r" "cx r \<le> 10000" "- 10000 \<le> cy r" "cy r \<le> 10000"
    "- 10000 \<le> cz r" "cz r \<le> 10000"
    by (simp_all add: within_seeds_def list_all_iff)
  from r have "Min (cx ` set rs) \<le> cx r" "Min (cy ` set rs) \<le> cy r" "Min (cz ` set rs) \<le> cz r"
    "cx r \<le> Max (cx ` set rs)" "cy r \<le> Max (cy ` set rs)" "cz r \<le> Max (cz ` set rs)"
    by simp_all
  with b show ?thesis by linarith
qed

text \<open>
  Claim C10, as the code has it. The bounds of a bucket start at \<open>(10000, 10000, 10000)\<close>
  and \<open>(-10000, -10000, -10000)\<close>; when the coordinates of its points are numbers, the
  computed minimum is the componentwise minimum of 10000 and the points, the computed
  maximum is the componentwise maximum of \<open>-10000\<close> and the points, and the box contains
  every point. The box is the tight bounding box exactly when on every axis the least
  coordinate is at most 10000 and the greatest is at least \<open>-10000\<close>; so it is tight
  whenever all coordinates lie within \<open>[-10000, 10000]\<close>.
\<close>

theorem seeded_bounds:
  assumes "props (collect tags tris) b = Some c" and "points c = map num3 rs"
  shows "min3 c = num3 (Min (insert 10000 (cx ` set rs)), Min (insert 10000 (cy ` set rs)),
                        Min (insert 10000 (cz ` set rs)))
     \<and> max3 c = num3 (Max (insert (- 10000) (cx ` set rs)), Max (insert (- 10000) (cy ` set rs)),
                      Max (insert (- 10000) (cz ` set rs)))
     \<and> (\<forall>r \<in> set rs. vle (min3 c) (num3 r) \<and> vle (num3 r) (max3 c))
     \<and> (tight_box c rs \<longleftrightarrow>
           Min (cx ` set rs) \<le> 10000 \<and> Min (cy ` set rs) \<le> 10000 \<and> Min (cz ` set rs) \<le> 10000
           \<and> - 10000 \<le> Max (cx ` set rs) \<and> - 10000 \<le> Max (cy ` set rs)
           \<and> - 10000 \<le> Max (cz ` set rs))
     \<and> (within_seeds rs \<longrightarrow> tight_box c rs)"
proof -
  from assms(1) have c: "c = collected tags tris b" and ne: "bucket_triangles tags b \<noteq> []"
    by (simp_all add: collect_bucket)
  from c assms(2) have pts: "bucket_points tags tris b = map num3 rs"
    by (simp add: collected_def)
  have "length rs = 3 * length (bucket_triangles tags b)"
    using length_bucket_points [of tags tris b] by (simp add: pts)
  with ne have rs: "rs \<noteq> []" by auto
  have c_eq: "c = \<lparr>points = map num3 rs,
        faces = map (\<lambda>j. (j * 3, j * 3 + 1, j * 3 + 2)) [0..<length (bucket_triangles tags b)],
        min3 = seeded_min (map num3 rs), max3 = seeded_max (map num3 rs),
        position = None, size3 = None\<rparr>"
    by (simp add: c collected_def pts)
  have mn: "min3 c = seeded_min (map num3 rs)" and mx: "max3 c = seeded_max (map num3 rs)"
    by (simp_all add: c_eq)
  have tight: "tight_box c rs \<longleftrightarrow>
           Min (cx ` set rs) \<le> 10000 \<and> Min (cy ` set rs) \<le> 10000 \<and> Min (cz ` set rs) \<le> 10000
           \<and> - 10000 \<le> Max (cx ` set rs) \<and> - 10000 \<le> Max (cy ` set rs)
           \<and> - 10000 \<le> Max (cz ` set rs)"
    unfolding c_eq by (rule tight_box_iff [OF rs])
  have contains: "\<forall>r \<in> set rs. vle (min3 c) (num3 r) \<and> vle (num3 r) (max3 c)"
    unfolding mn mx
  proof
    fix r assume "r \<in> set rs"
    then show "vle (seeded_min (map num3 rs)) (num3 r) \<and> vle (num3 r) (seeded_max (map num3 rs))"
      by (rule box_contains)
  qed
  have seeds: "within_seeds rs \<longrightarrow> tight_box c rs"
    unfolding tight
  proof
    assume "within_seeds rs"
    with rs show "Min (cx ` set rs) \<le> 10000 \<and> Min (cy ` set rs) \<le> 10000 \<and> Min (cz ` set rs) \<le> 10000
           \<and> - 10000 \<le> Max (cx ` set rs) \<and> - 10000 \<le> Max (cy ` set rs)
           \<and> - 10000 \<le> Max (cz ` set rs)"
      by (rule within_seeds_bounds)
  qed
  from mn mx contains tight seeds show ?thesis
    by (simp only: seeded_min_num3 seeded_max_num3)
qed


theorem seeded_bounds_witness:
  "props (collect (arrtricells void_triangle) (arrtris void_triangle)) 0
     = Some (collected (arrtricells void_triangle) (arrtris void_triangle) 0)
   \<and> points (collected (arrtricells void_triangle) (arrtris void_triangle) 0) = map num3 void_points
   \<and> within_seeds void_points
   \<and> min3 (collected (arrtricells void_triangle) (arrtris void_triangle) 0) = num3 (0, 0, 0)
   \<and> max3 (collected (arrtricells void_triangle) (arrtris void_triangle) 0) = num3 (4, 2, 0)
   \<and> tight_box (collected (arrtricells void_triangle) (arrtris void_triangle) 0) void_points"
proof -
  let ?c = "collected (arrtricells void_triangle) (arrtris void_triangle) 0"
  have p: "props (collect (arrtricells void_triangle) (arrtris void_triangle)) 0 = Some ?c"
    by (simp add: collect_eq void_triangle_def)
  have q: "points ?c = map num3 void_points"
    by (simp add: collected_def bucket_points_def bucket_triangles_def tri_points_def point_at_def
        js_get_def void_triangle_def void_points_def upt_conv_Cons numeral_3_eq_3)
  have w: "within_seeds void_points"
    by (simp add: within_seeds_def void_points_def)
  note t = seeded_bounds [OF p q]
  from t have mn: "min3 ?c = num3 (0, 0, 0)"
    by (simp add: void_points_def)
  from t have mx: "max3 ?c = num3 (4, 2, 0)"
    by (simp add: void_points_def)
  note seeds = t [THEN conjunct2, THEN conjunct2, THEN conjunct2, THEN conjunct2, THEN mp, OF w]
  from p q w mn mx seeds show ?thesis by (intro conjI)
qed

text \<open>
  Claim C10 as it is stated fails in its last part: the box of a bucket can be the tight
  bounding box although coordinates lie outside \<open>[-10000, 10000]\<close>. The triangle
  \<open>(0, 0, 0), (20000, 0, 0), (0, 20000, 0)\<close> gets the box from \<open>(0, 0, 0)\<close> to
  \<open>(20000, 20000, 0)\<close>.
\<close>

theorem tight_box_outside_seeds:
  "props (collect (arrtricells wide_triangle) (arrtris wide_triangle)) 2
     = Some (collected (arrtricells wide_triangle) (arrtris wide_triangle) 2)
   \<and> points (collected (arrtricells wide_triangle) (arrtris wide_triangle) 2) = map num3 wide_points
   \<and> tight_box (collected (arrtricells wide_triangle) (arrtris wide_triangle) 2) wide_points
   \<and> \<not> within_seeds wide_points"
proof -
  let ?c = "collected (arrtricells wide_triangle) (arrtris wide_triangle) 2"
  have p: "props (collect (arrtricells wide_triangle) (arrtris wide_triangle)) 2 = Some ?c"
    by (simp add: collect_eq wide_triangle_def)
  have b: "bucket_points (arrtricells wide_triangle) (arrtris wide_triangle) 2 = map num3 wide_points"
    by (simp add: bucket_points_def bucket_triangles_def tri_points_def point_at_def
        js_get_def wide_triangle_def wide_points_def upt_conv_Cons numeral_3_eq_3)
  then have q: "points ?c = map num3 wide_points"
    by (simp add: collected_def)
  have ne: "wide_points \<noteq> []" by (simp add: wide_points_def)
  have c_eq: "?c = \<lparr>points = map num3 wide_points,
        faces = map (\<lambda>j. (j * 3, j * 3 + 1, j * 3 + 2))
                  [0..<length (bucket_triangles (arrtricells wide_triangle) 2)],
        min3 = seeded_min (map num3 wide_points), max3 = seeded_max (map num3 wide_points),
        position = None, size3 = None\<rparr>"
    by (simp add: collected_def b)
  have t: "tight_box ?c wide_points"
    unfolding c_eq tight_box_iff [OF ne] by (simp add: wide_points_def)
  have w: "\<not> within_seeds wide_points"
    by (simp add: within_seeds_def wide_points_def)
  from p q t w show ?thesis by (intro conjI)
qed

section \<open>Recentering\<close>

lemma doFracture_last_step:
  "0 < n \<Longrightarrow>
   doFracture device cellCount n old vertsAsFloat4 =
     Inr (assemble (outputToInput
       (readback_of device (doTransformCopyPerPlane cellCount vertsAsFloat4)
          \<lparr>arrtricells = (case old of None \<Rightarrow> [] | Some tags \<Rightarrow> tags), arrtris = vertsAsFloat4\<rparr>
          (n - 1))))"
proof -
  assume "0 < n"
  then obtain m where n: "n = Suc m" by (cases n) simp_all
  show ?thesis
    by (simp only: doFracture_def Let_def fracture_loop_loop_state n loop_state_Suc diff_Suc_1)
       simp
qed

lemma doFracture_unassigned:
  "doFracture device cellCount 0 None vertsAsFloat4 = Inl TypeError"
  by (simp add: doFracture_def)









end
